theory Spec2Isabelle
  imports
    Main
    "HOL-Library.Word"
    "HOL-Library.Char_ord"
    "HOL-Library.List_Lexorder"
    "HOL-Library.Product_Lexorder"
begin

section \<open>Blue-green reconciliation of a rollout (controller/bluegreen.go)\<close>

text \<open>
  A shallow embedding of \<^verbatim>\<open>controller/bluegreen.go\<close>. Every function of that file is
  translated as it is written. The methods of \<^verbatim>\<open>Controller\<close> and the package-level helpers
  the file calls but does not define are parameters of the model: a record of state
  transformers over an abstract world \<open>'w\<close> (the cluster store, the event recorder) for the
  methods, a record of pure functions for the helpers.
\<close>

subsection \<open>Data\<close>

text \<open>Go's \<^verbatim>\<open>int32\<close>: addition and subtraction wrap, comparisons are the signed ones.\<close>

type_synonym int32 = "32 word"

text \<open>
  \<^verbatim>\<open>appsv1.ReplicaSet\<close>, the fields the file reads. \<open>rsReplicas\<close> is
  \<^verbatim>\<open>*(rs.Spec.Replicas)\<close>, \<open>rsAvailableReplicas\<close> is \<^verbatim>\<open>rs.Status.AvailableReplicas\<close>. Replica
  sets reach this file through non-nil pointers with the replica count set (the API
  server defaults it), so they are plain values here.
\<close>

record replicaSet =
  rsNamespace :: string
  rsName :: string
  rsCreationTimestamp :: int
  rsReplicas :: int32
  rsAvailableReplicas :: int32

text \<open>
  \<^verbatim>\<open>corev1.Service\<close>: \<open>svcSelector\<close> is \<^verbatim>\<open>svc.Spec.Selector\<close>, a Go map (reading a nil map
  finds no key, as reading the empty map). A \<^verbatim>\<open>*corev1.Service\<close> that may be nil is a
  \<open>service option\<close>.
\<close>

record service =
  svcName :: string
  svcSelector :: "string \<rightharpoonup> string"

text \<open>
  \<^verbatim>\<open>v1alpha1.Rollout\<close>: \<open>roReplicas\<close> is \<^verbatim>\<open>Spec.Replicas\<close>, \<open>roPreviewService\<close> and
  \<open>roActiveService\<close> are the two names of \<^verbatim>\<open>Spec.Strategy.BlueGreenStrategy\<close>,
  \<open>roVerifyingPreview\<close> is the pointer \<^verbatim>\<open>Status.VerifyingPreview\<close>. The file is
  entered for blue-green rollouts only: the rollout and its blue-green strategy are
  there.
\<close>

record rollout =
  roNamespace :: string
  roName :: string
  roReplicas :: "int32 option"
  roPreviewService :: string
  roActiveService :: string
  roVerifyingPreview :: "bool option"

text \<open>
  Go's \<^verbatim>\<open>error\<close> values: the one this file builds with \<^verbatim>\<open>fmt.Errorf\<close> (namespace, name,
  current and requested count), and whatever a collaborator returns. A nil error is
  \<open>None\<close>.
\<close>

datatype error =
  InvalidScaleDownRequest string string int32 int32
  | CollaboratorError string

text \<open>A run-time panic of the Go program.\<close>

datatype panic = NilPointerDereference

subsection \<open>What the file calls and does not define\<close>

text \<open>
  Package-level names declared outside \<^verbatim>\<open>src/\<close>: the label key of \<^verbatim>\<open>v1alpha1\<close>, and the
  helpers of \<^verbatim>\<open>defaults\<close>, \<^verbatim>\<open>replicasetutil\<close>, \<^verbatim>\<open>annotations\<close>, \<^verbatim>\<open>conditions\<close> and of
  Kubernetes' \<^verbatim>\<open>controller\<close> package. They read their arguments only. A helper that
  returns \<^verbatim>\<open>(value, error)\<close> returns a pair here.
\<close>

record deps =
  DefaultRolloutUniqueLabelKey :: string
  GetRolloutReplicasOrDefault :: "rollout \<Rightarrow> int32"
  NewRSNewReplicas :: "rollout \<Rightarrow> replicaSet list \<Rightarrow> replicaSet \<Rightarrow> int32 \<times> error option"
  IsSaturated :: "rollout \<Rightarrow> replicaSet \<Rightarrow> bool"
  RolloutComplete :: "rollout \<Rightarrow> bool"
  FilterActiveReplicaSets :: "replicaSet list \<Rightarrow> replicaSet list"

text \<open>
  The methods of \<^verbatim>\<open>Controller\<close> defined in other files of the package. Each takes the
  world and returns its Go results with the world it leaves. They work on the store and
  on copies: no object handed to them is changed in place.
\<close>

record 'w Controller =
  getAllReplicaSetsAndSyncRevision ::
    "rollout \<Rightarrow> replicaSet list \<Rightarrow> bool \<Rightarrow> 'w \<Rightarrow> (replicaSet \<times> replicaSet list \<times> error option) \<times> 'w"
  getPreviewAndActiveServices ::
    "rollout \<Rightarrow> 'w \<Rightarrow> (service option \<times> service option \<times> error option) \<times> 'w"
  scaleReplicaSetAndRecordEvent ::
    "replicaSet \<Rightarrow> int32 \<Rightarrow> rollout \<Rightarrow> 'w \<Rightarrow> (bool \<times> replicaSet \<times> error option) \<times> 'w"
  reconcilePreviewService ::
    "rollout \<Rightarrow> replicaSet \<Rightarrow> service option \<Rightarrow> service option \<Rightarrow> 'w \<Rightarrow> (bool \<times> error option) \<times> 'w"
  reconcileActiveService ::
    "rollout \<Rightarrow> replicaSet \<Rightarrow> service option \<Rightarrow> service option \<Rightarrow> 'w \<Rightarrow> (bool \<times> error option) \<times> 'w"
  cleanupRollouts :: "replicaSet list \<Rightarrow> rollout \<Rightarrow> 'w \<Rightarrow> error option \<times> 'w"
  syncRolloutStatus ::
    "replicaSet list \<Rightarrow> replicaSet \<Rightarrow> service option \<Rightarrow> service option \<Rightarrow> rollout \<Rightarrow> 'w
      \<Rightarrow> error option \<times> 'w"

text \<open>
  Modelled from the spec: \<^verbatim>\<open>replicasetutil.GetReplicaCountForReplicaSets\<close> and
  \<^verbatim>\<open>replicasetutil.GetAvailableReplicaCountForReplicaSets\<close> are not under \<^verbatim>\<open>src/\<close>. The spec's
  Scale Accountant describes them as the total desired count and the total available
  count of a collection of replica groups, pure and without errors. The totals are
  \<^verbatim>\<open>int32\<close> values, so the sums wrap.
\<close>

definition GetReplicaCountForReplicaSets :: "replicaSet list \<Rightarrow> int32" where
  "GetReplicaCountForReplicaSets replicaSets = sum_list (map rsReplicas replicaSets)"

definition GetAvailableReplicaCountForReplicaSets :: "replicaSet list \<Rightarrow> int32" where
  "GetAvailableReplicaCountForReplicaSets replicaSets =
     sum_list (map rsAvailableReplicas replicaSets)"

text \<open>
  \<^verbatim>\<open>sort.Sort(controller.ReplicaSetsByCreationTimestamp(oldRSs))\<close>: Kubernetes orders
  replica sets by creation timestamp and, when the timestamps are equal, by name. The
  sort is in place; the model returns the sorted slice. Go's sort is not stable and this
  one is: they agree whenever no two replica sets share both timestamp and name.
\<close>

definition sortByCreationTimestamp :: "replicaSet list \<Rightarrow> replicaSet list" where
  "sortByCreationTimestamp oldRSs =
     sort_key (\<lambda>rs. (rsCreationTimestamp rs, rsName rs)) oldRSs"

subsection \<open>The functions of the file\<close>

text \<open>
  \<^verbatim>\<open>return c.syncRolloutStatus(allRSs, newRS, previewSvc, activeSvc, r)\<close>, the way
  \<^verbatim>\<open>rolloutBlueGreen\<close> leaves a pass after a step that changed something.
\<close>

definition syncAndReturn ::
  "'w Controller \<Rightarrow> replicaSet list \<Rightarrow> replicaSet \<Rightarrow> service option \<Rightarrow> service option
    \<Rightarrow> rollout \<Rightarrow> 'w \<Rightarrow> (panic + error option) \<times> 'w" where
  "syncAndReturn c allRSs newRS previewSvc activeSvc r w =
     (case syncRolloutStatus c allRSs newRS previewSvc activeSvc r w of
        (err, w') \<Rightarrow> (Inr err, w'))"

text \<open>
  \<^verbatim>\<open>reconcileVerifyingPreview\<close> (lines 82-95). It reads \<^verbatim>\<open>activeSvc.Spec.Selector\<close>
  without a nil check: on a nil \<^verbatim>\<open>activeSvc\<close> the Go program panics. It calls no
  collaborator and writes nothing, so it takes and returns no world.
\<close>

definition reconcileVerifyingPreview :: "deps \<Rightarrow> service option \<Rightarrow> rollout \<Rightarrow> panic + bool" where
  "reconcileVerifyingPreview d activeSvc rollout =
     (if roPreviewService rollout = [] then Inr False
      else case activeSvc of
        None \<Rightarrow> Inl NilPointerDereference
      | Some svc \<Rightarrow>
          (if svcSelector svc (DefaultRolloutUniqueLabelKey d) = None then Inr False
           else case roVerifyingPreview rollout of
             None \<Rightarrow> Inr False
           | Some verifying \<Rightarrow> Inr verifying))"

text \<open>\<^verbatim>\<open>reconcileNewReplicaSet\<close> (lines 97-114).\<close>

definition reconcileNewReplicaSet ::
  "deps \<Rightarrow> 'w Controller \<Rightarrow> replicaSet list \<Rightarrow> replicaSet \<Rightarrow> rollout \<Rightarrow> 'w
    \<Rightarrow> (bool \<times> error option) \<times> 'w" where
  "reconcileNewReplicaSet d c allRSs newRS rollout w =
     (let rolloutReplicas = GetRolloutReplicasOrDefault d rollout in
      if rsReplicas newRS = rolloutReplicas then ((False, None), w)
      else if rolloutReplicas <s rsReplicas newRS then
        (case scaleReplicaSetAndRecordEvent c newRS rolloutReplicas rollout w of
           ((scaled, _, err), w') \<Rightarrow> ((scaled, err), w'))
      else
        (case NewRSNewReplicas d rollout allRSs newRS of
           (_, Some err) \<Rightarrow> ((False, Some err), w)
         | (newReplicasCount, None) \<Rightarrow>
             (case scaleReplicaSetAndRecordEvent c newRS newReplicasCount rollout w of
                ((scaled, _, err), w') \<Rightarrow> ((scaled, err), w'))))"

text \<open>
  The loop of \<^verbatim>\<open>cleanupUnhealthyReplicas\<close> (lines 155-179) over the sorted slice:
  \<open>visited\<close> holds the entries already visited (with \<^verbatim>\<open>oldRSs[i] = updatedOldRS\<close> applied),
  the list argument the entries still to visit. A nil slice is the empty list.
\<close>

fun cleanupLoop ::
  "'w Controller \<Rightarrow> rollout \<Rightarrow> replicaSet list \<Rightarrow> replicaSet list \<Rightarrow> int32 \<Rightarrow> 'w
    \<Rightarrow> (replicaSet list \<times> int32 \<times> error option) \<times> 'w" where
  "cleanupLoop c rollout visited [] totalScaledDown w = ((visited, totalScaledDown, None), w)"
| "cleanupLoop c rollout visited (targetRS # rest) totalScaledDown w =
     (if rsReplicas targetRS = 0 then
        cleanupLoop c rollout (visited @ [targetRS]) rest totalScaledDown w
      else if rsReplicas targetRS = rsAvailableReplicas targetRS then
        cleanupLoop c rollout (visited @ [targetRS]) rest totalScaledDown w
      else
        (let scaledDownCount = rsReplicas targetRS - rsAvailableReplicas targetRS;
             newReplicasCount = rsAvailableReplicas targetRS
         in
         if rsReplicas targetRS <s newReplicasCount then
           (([], 0,
             Some (InvalidScaleDownRequest (rsNamespace targetRS) (rsName targetRS)
                     (rsReplicas targetRS) newReplicasCount)), w)
         else
           (case scaleReplicaSetAndRecordEvent c targetRS newReplicasCount rollout w of
              ((_, _, Some err), w') \<Rightarrow> (([], totalScaledDown, Some err), w')
            | ((_, updatedOldRS, None), w') \<Rightarrow>
                cleanupLoop c rollout (visited @ [updatedOldRS]) rest
                  (totalScaledDown + scaledDownCount) w')))"

text \<open>\<^verbatim>\<open>cleanupUnhealthyReplicas\<close> (lines 150-180).\<close>

definition cleanupUnhealthyReplicas ::
  "'w Controller \<Rightarrow> replicaSet list \<Rightarrow> rollout \<Rightarrow> 'w
    \<Rightarrow> (replicaSet list \<times> int32 \<times> error option) \<times> 'w" where
  "cleanupUnhealthyReplicas c oldRSs rollout w =
     cleanupLoop c rollout [] (sortByCreationTimestamp oldRSs) 0 w"

text \<open>The loop of \<^verbatim>\<open>scaleDownOldReplicaSetsForBlueGreen\<close> (lines 193-210).\<close>

fun scaleDownLoop ::
  "'w Controller \<Rightarrow> rollout \<Rightarrow> replicaSet list \<Rightarrow> int32 \<Rightarrow> 'w \<Rightarrow> (int32 \<times> error option) \<times> 'w" where
  "scaleDownLoop c rollout [] totalScaledDown w = ((totalScaledDown, None), w)"
| "scaleDownLoop c rollout (targetRS # rest) totalScaledDown w =
     (if rsReplicas targetRS = 0 then scaleDownLoop c rollout rest totalScaledDown w
      else
        (let scaleDownCount = rsReplicas targetRS;
             newReplicasCount = 0
         in
         case scaleReplicaSetAndRecordEvent c targetRS newReplicasCount rollout w of
           ((_, _, Some err), w') \<Rightarrow> ((totalScaledDown, Some err), w')
         | ((_, _, None), w') \<Rightarrow>
             scaleDownLoop c rollout rest (totalScaledDown + scaleDownCount) w'))"

text \<open>\<^verbatim>\<open>scaleDownOldReplicaSetsForBlueGreen\<close> (lines 183-211).\<close>

definition scaleDownOldReplicaSetsForBlueGreen ::
  "deps \<Rightarrow> 'w Controller \<Rightarrow> replicaSet list \<Rightarrow> replicaSet list \<Rightarrow> rollout \<Rightarrow> 'w
    \<Rightarrow> (int32 \<times> error option) \<times> 'w" where
  "scaleDownOldReplicaSetsForBlueGreen d c allRSs oldRSs rollout w =
     (let availablePodCount = GetAvailableReplicaCountForReplicaSets allRSs in
      if availablePodCount \<le>s GetRolloutReplicasOrDefault d rollout then ((0, None), w)
      else scaleDownLoop c rollout (sortByCreationTimestamp oldRSs) 0 w)"

text \<open>
  \<^verbatim>\<open>reconcileOldReplicaSets\<close> (lines 116-147). Both \<^verbatim>\<open>if err != nil\<close> branches return
  \<^verbatim>\<open>false, nil\<close>, as the source does.
\<close>

definition reconcileOldReplicaSets ::
  "deps \<Rightarrow> 'w Controller \<Rightarrow> replicaSet list \<Rightarrow> replicaSet list \<Rightarrow> replicaSet \<Rightarrow> rollout \<Rightarrow> 'w
    \<Rightarrow> (bool \<times> error option) \<times> 'w" where
  "reconcileOldReplicaSets d c allRSs oldRSs newRS rollout w =
     (let oldPodsCount = GetReplicaCountForReplicaSets oldRSs in
      if oldPodsCount = 0 then ((False, None), w)
      else if \<not> IsSaturated d rollout newRS then ((False, None), w)
      else
        (case cleanupUnhealthyReplicas c oldRSs rollout w of
           ((_, _, Some err), w1) \<Rightarrow> ((False, None), w1)
         | ((oldRSs1, cleanupCount, None), w1) \<Rightarrow>
             (let allRSs1 = oldRSs1 @ [newRS] in
              case scaleDownOldReplicaSetsForBlueGreen d c allRSs1 oldRSs1 rollout w1 of
                ((_, Some err), w2) \<Rightarrow> ((False, None), w2)
              | ((scaledDownCount, None), w2) \<Rightarrow>
                  (let totalScaledDown = cleanupCount + scaledDownCount in
                   ((0 <s totalScaledDown, None), w2)))))"

text \<open>
  Lines 57-80 of \<^verbatim>\<open>rolloutBlueGreen\<close>: what follows the \<^verbatim>\<open>if previewSvc != nil\<close> block,
  reached from the end of that block and from its skipped branch.
\<close>

definition rolloutBlueGreenTail ::
  "deps \<Rightarrow> 'w Controller \<Rightarrow> rollout \<Rightarrow> replicaSet list \<Rightarrow> replicaSet \<Rightarrow> replicaSet list
    \<Rightarrow> service option \<Rightarrow> service option \<Rightarrow> 'w \<Rightarrow> (panic + error option) \<times> 'w" where
  "rolloutBlueGreenTail d c r allRSs newRS oldRSs previewSvc activeSvc w =
     (case reconcileActiveService c r newRS previewSvc activeSvc w of
        ((_, Some err), w1) \<Rightarrow> (Inr (Some err), w1)
      | ((switchActiveSvc, None), w1) \<Rightarrow>
          if switchActiveSvc then syncAndReturn c allRSs newRS previewSvc activeSvc r w1
          else
            (case reconcileOldReplicaSets d c allRSs (FilterActiveReplicaSets d oldRSs)
                    newRS r w1 of
               ((_, Some err), w2) \<Rightarrow> (Inr (Some err), w2)
             | ((scaledDown, None), w2) \<Rightarrow>
                 if scaledDown then syncAndReturn c allRSs newRS previewSvc activeSvc r w2
                 else if RolloutComplete d r then
                   (case cleanupRollouts c oldRSs r w2 of
                      (Some err, w3) \<Rightarrow> (Inr (Some err), w3)
                    | (None, w3) \<Rightarrow> syncAndReturn c allRSs newRS previewSvc activeSvc r w3)
                 else syncAndReturn c allRSs newRS previewSvc activeSvc r w2))"

text \<open>
  \<^verbatim>\<open>rolloutBlueGreen\<close> (lines 22-80). The result is the returned error (\<open>Inr\<close>), or the
  panic of \<^verbatim>\<open>reconcileVerifyingPreview\<close> (\<open>Inl\<close>), which ends the pass where it happens.
\<close>

definition rolloutBlueGreen ::
  "deps \<Rightarrow> 'w Controller \<Rightarrow> rollout \<Rightarrow> replicaSet list \<Rightarrow> 'w \<Rightarrow> (panic + error option) \<times> 'w" where
  "rolloutBlueGreen d c r rsList w =
     (case getAllReplicaSetsAndSyncRevision c r rsList True w of
        ((_, _, Some err), w1) \<Rightarrow> (Inr (Some err), w1)
      | ((newRS, oldRSs, None), w1) \<Rightarrow>
     (case getPreviewAndActiveServices c r w1 of
        ((_, _, Some err), w2) \<Rightarrow> (Inr (Some err), w2)
      | ((previewSvc, activeSvc, None), w2) \<Rightarrow>
     (let allRSs = oldRSs @ [newRS] in
      case reconcileNewReplicaSet d c allRSs newRS r w2 of
        ((_, Some err), w3) \<Rightarrow> (Inr (Some err), w3)
      | ((scaledUp, None), w3) \<Rightarrow>
          if scaledUp then syncAndReturn c allRSs newRS previewSvc activeSvc r w3
          else if previewSvc \<noteq> None then
            (case reconcilePreviewService c r newRS previewSvc activeSvc w3 of
               ((_, Some err), w4) \<Rightarrow> (Inr (Some err), w4)
             | ((switchPreviewSvc, None), w4) \<Rightarrow>
                 if switchPreviewSvc then
                   syncAndReturn c allRSs newRS previewSvc activeSvc r w4
                 else
                   (case reconcileVerifyingPreview d activeSvc r of
                      Inl p \<Rightarrow> (Inl p, w4)
                    | Inr verfyingPreview \<Rightarrow>
                        if verfyingPreview then
                          syncAndReturn c allRSs newRS previewSvc activeSvc r w4
                        else
                          rolloutBlueGreenTail d c r allRSs newRS oldRSs previewSvc
                            activeSvc w4))
          else rolloutBlueGreenTail d c r allRSs newRS oldRSs previewSvc activeSvc w3)))"

text \<open>
  The pass gets through the \<^verbatim>\<open>if previewSvc != nil\<close> block (lines 42-55) from world \<open>w3\<close>
  without returning, and goes on in world \<open>w4\<close>: there is no preview selector, or the
  preview cutover reports no switch and no error and the gate is not held.
\<close>

definition passedPreviewBlock ::
  "deps \<Rightarrow> 'w Controller \<Rightarrow> rollout \<Rightarrow> replicaSet \<Rightarrow> service option \<Rightarrow> service option
    \<Rightarrow> 'w \<Rightarrow> 'w \<Rightarrow> bool" where
  "passedPreviewBlock d c r newRS previewSvc activeSvc w3 w4 =
     (previewSvc = None \<and> w4 = w3
      \<or> previewSvc \<noteq> None
        \<and> reconcilePreviewService c r newRS previewSvc activeSvc w3 = ((False, None), w4)
        \<and> reconcileVerifyingPreview d activeSvc r = Inr False)"

subsection \<open>Observing the collaborator calls of a run\<close>

text \<open>
  One entry per call of a \<^verbatim>\<open>Controller\<close> method; a scale call is logged with its target
  and the requested count.
\<close>

datatype call =
  CallSyncRevision
  | CallGetServices
  | CallScale replicaSet int32
  | CallPreviewCutover
  | CallActiveCutover
  | CallCleanup
  | CallSyncStatus

text \<open>
  \<open>traced c\<close> behaves as \<open>c\<close> on the world and appends every call to a log carried
  beside it. Running a function of the file with \<open>traced c\<close> from an empty log yields the
  sequence of collaborator calls the function makes with \<open>c\<close>.
\<close>

definition traced :: "'w Controller \<Rightarrow> ('w \<times> call list) Controller" where
  "traced c =
     \<lparr> getAllReplicaSetsAndSyncRevision = (\<lambda>r rsList createIfNotExisted s.
         case getAllReplicaSetsAndSyncRevision c r rsList createIfNotExisted (fst s) of
           (res, w') \<Rightarrow> (res, (w', snd s @ [CallSyncRevision]))),
       getPreviewAndActiveServices = (\<lambda>r s.
         case getPreviewAndActiveServices c r (fst s) of
           (res, w') \<Rightarrow> (res, (w', snd s @ [CallGetServices]))),
       scaleReplicaSetAndRecordEvent = (\<lambda>rs newScale r s.
         case scaleReplicaSetAndRecordEvent c rs newScale r (fst s) of
           (res, w') \<Rightarrow> (res, (w', snd s @ [CallScale rs newScale]))),
       reconcilePreviewService = (\<lambda>r newRS previewSvc activeSvc s.
         case reconcilePreviewService c r newRS previewSvc activeSvc (fst s) of
           (res, w') \<Rightarrow> (res, (w', snd s @ [CallPreviewCutover]))),
       reconcileActiveService = (\<lambda>r newRS previewSvc activeSvc s.
         case reconcileActiveService c r newRS previewSvc activeSvc (fst s) of
           (res, w') \<Rightarrow> (res, (w', snd s @ [CallActiveCutover]))),
       cleanupRollouts = (\<lambda>oldRSs r s.
         case cleanupRollouts c oldRSs r (fst s) of
           (res, w') \<Rightarrow> (res, (w', snd s @ [CallCleanup]))),
       syncRolloutStatus = (\<lambda>allRSs newRS previewSvc activeSvc r s.
         case syncRolloutStatus c allRSs newRS previewSvc activeSvc r (fst s) of
           (res, w') \<Rightarrow> (res, (w', snd s @ [CallSyncStatus]))) \<rparr>"

text \<open>The scale calls of a log, in order: target and requested count.\<close>

fun scaleCalls :: "call list \<Rightarrow> (replicaSet \<times> int32) list" where
  "scaleCalls [] = []"
| "scaleCalls (CallScale rs n # cs) = (rs, n) # scaleCalls cs"
| "scaleCalls (_ # cs) = scaleCalls cs"

text \<open>
  The world after sending the given scale requests, in order, to the scale collaborator.
\<close>

fun replayScales :: "'w Controller \<Rightarrow> rollout \<Rightarrow> (replicaSet \<times> int32) list \<Rightarrow> 'w \<Rightarrow> 'w" where
  "replayScales c r [] w = w"
| "replayScales c r ((rs, newScale) # requests) w =
     replayScales c r requests (snd (scaleReplicaSetAndRecordEvent c rs newScale r w))"



text \<open>
  Modelled from the spec: the contracts of Scale-And-Record and Service Cutover (External
  Interfaces). Their boolean result tells whether a real change happened: a call that
  returns false and no error has left the world as it was.
\<close>

definition reportsChanges :: "'w Controller \<Rightarrow> bool" where
  "reportsChanges c =
     ((\<forall>rs n r w.
         fst (fst (scaleReplicaSetAndRecordEvent c rs n r w))
         \<or> snd (snd (fst (scaleReplicaSetAndRecordEvent c rs n r w))) \<noteq> None
         \<or> snd (scaleReplicaSetAndRecordEvent c rs n r w) = w)
      \<and> (\<forall>r newRS p a w.
         fst (fst (reconcilePreviewService c r newRS p a w))
         \<or> snd (fst (reconcilePreviewService c r newRS p a w)) \<noteq> None
         \<or> snd (reconcilePreviewService c r newRS p a w) = w)
      \<and> (\<forall>r newRS p a w.
         fst (fst (reconcileActiveService c r newRS p a w))
         \<or> snd (fst (reconcileActiveService c r newRS p a w)) \<noteq> None
         \<or> snd (reconcileActiveService c r newRS p a w) = w))"

subsection \<open>Sample inputs\<close>

text \<open>
  Concrete helpers and collaborators on which the theorems below are exercised. The
  helpers follow the upstream packages: the default replica count is 1, the blue-green
  ramp function asks for the full count at once, a replica set is saturated when its
  desired and available counts both equal the rollout's, and a replica set is active
  when its desired count is positive.
\<close>

definition sampleDeps :: "bool \<Rightarrow> deps" where
  "sampleDeps complete =
     \<lparr> DefaultRolloutUniqueLabelKey = ''rollouts-pod-template-hash'',
       GetRolloutReplicasOrDefault = (\<lambda>r. case roReplicas r of None \<Rightarrow> 1 | Some n \<Rightarrow> n),
       NewRSNewReplicas = (\<lambda>r allRSs newRS.
         (case roReplicas r of None \<Rightarrow> 1 | Some n \<Rightarrow> n, None)),
       IsSaturated = (\<lambda>r rs.
         rsReplicas rs = (case roReplicas r of None \<Rightarrow> 1 | Some n \<Rightarrow> n)
         \<and> rsAvailableReplicas rs = (case roReplicas r of None \<Rightarrow> 1 | Some n \<Rightarrow> n)),
       RolloutComplete = (\<lambda>r. complete),
       FilterActiveReplicaSets = filter (\<lambda>rs. 0 <s rsReplicas rs) \<rparr>"

text \<open>
  The world of the sample controllers is the list of writes made so far, as (name of the
  written object, count or 0). The last replica set of the observed list is the new one.
  The scale collaborator is a no-op when the count already matches; \<open>scaleFails\<close> makes
  every real scale request fail instead. The cutovers switch when told to.
\<close>

definition sampleController ::
  "service option \<Rightarrow> service option \<Rightarrow> bool \<Rightarrow> bool \<Rightarrow> bool \<Rightarrow> (string \<times> int32) list Controller"
  where
  "sampleController previewSvc activeSvc switchPreview switchActive scaleFails =
     \<lparr> getAllReplicaSetsAndSyncRevision = (\<lambda>r rsList createIfNotExisted w.
         case rev rsList of
           [] \<Rightarrow>
             ((\<lparr>rsNamespace = [], rsName = [], rsCreationTimestamp = 0, rsReplicas = 0,
                 rsAvailableReplicas = 0\<rparr>, [],
               Some (CollaboratorError ''no replica set'')), w)
         | newRS # oldRSs \<Rightarrow> ((newRS, rev oldRSs, None), w)),
       getPreviewAndActiveServices = (\<lambda>r w. ((previewSvc, activeSvc, None), w)),
       scaleReplicaSetAndRecordEvent = (\<lambda>rs newScale r w.
         if rsReplicas rs = newScale then ((False, rs, None), w)
         else if scaleFails then ((False, rs, Some (CollaboratorError ''update failed'')), w)
         else ((True, rs\<lparr>rsReplicas := newScale\<rparr>, None), w @ [(rsName rs, newScale)])),
       reconcilePreviewService = (\<lambda>r newRS p a w.
         if switchPreview then ((True, None), w @ [(''preview'', 0)]) else ((False, None), w)),
       reconcileActiveService = (\<lambda>r newRS p a w.
         if switchActive then ((True, None), w @ [(''active'', 0)]) else ((False, None), w)),
       cleanupRollouts = (\<lambda>oldRSs r w. (None, w @ [(''cleanup'', 0)])),
       syncRolloutStatus = (\<lambda>allRSs newRS p a r w. (None, w @ [(''status'', 0)])) \<rparr>"

definition sampleRS :: "string \<Rightarrow> int \<Rightarrow> int32 \<Rightarrow> int32 \<Rightarrow> replicaSet" where
  "sampleRS name created desired available =
     \<lparr> rsNamespace = ''default'', rsName = name, rsCreationTimestamp = created,
       rsReplicas = desired, rsAvailableReplicas = available \<rparr>"

definition sampleRollout :: "int32 \<Rightarrow> string \<Rightarrow> bool option \<Rightarrow> rollout" where
  "sampleRollout replicas preview verifying =
     \<lparr> roNamespace = ''default'', roName = ''web'', roReplicas = Some replicas,
       roPreviewService = preview, roActiveService = ''active'',
       roVerifyingPreview = verifying \<rparr>"

definition sampleService :: "string \<Rightarrow> (string \<rightharpoonup> string) \<Rightarrow> service" where
  "sampleService name selector = \<lparr> svcName = name, svcSelector = selector \<rparr>"

section \<open>Properties\<close>

subsection \<open>Auxiliary facts\<close>

lemma traced_scale:
  "scaleReplicaSetAndRecordEvent (traced c) rs n r s =
     (case scaleReplicaSetAndRecordEvent c rs n r (fst s) of
        (res, w') \<Rightarrow> (res, (w', snd s @ [CallScale rs n])))"
  by (simp add: traced_def)

lemma sum_list_map_insort_key:
  fixes f :: "'a \<Rightarrow> int32"
  shows "sum_list (map f (insort_key k x xs)) = f x + sum_list (map f xs)"
  by (induction xs) (simp_all add: add.left_commute)

lemma sum_list_map_sort_key:
  fixes f :: "'a \<Rightarrow> int32"
  shows "sum_list (map f (sort_key k xs)) = sum_list (map f xs)"
  by (induction xs) (simp_all add: sum_list_map_insort_key)

lemma sum_list_filter_sortByCreationTimestamp:
  "sum_list (map rsReplicas (filter P (sortByCreationTimestamp oldRSs)))
     = sum_list (map rsReplicas (filter P oldRSs))"
  by (simp add: sortByCreationTimestamp_def filter_sort sum_list_map_sort_key)

text \<open>
  The in-place sort permutes the caller's slice (and a group set that shares its backing
  array); the total available count does not see it.
\<close>

lemma GetAvailable_sortByCreationTimestamp:
  "GetAvailableReplicaCountForReplicaSets (sortByCreationTimestamp oldRSs @ rest)
     = GetAvailableReplicaCountForReplicaSets (oldRSs @ rest)"
  by (simp add: GetAvailableReplicaCountForReplicaSets_def sortByCreationTimestamp_def
      sum_list_map_sort_key)

text \<open>The scale-down loop: its count when it ends without error, and its calls.\<close>

lemma scaleDownLoop_total:
  "snd (fst (scaleDownLoop c r xs t w)) = None \<Longrightarrow>
     fst (fst (scaleDownLoop c r xs t w))
       = t + sum_list (map rsReplicas (filter (\<lambda>rs. rsReplicas rs \<noteq> 0) xs))"
proof (induction xs arbitrary: t w)
  case Nil
  then show ?case by simp
next
  case (Cons x xs)
  show ?case
  proof (cases "rsReplicas x = 0")
    case True
    with Cons show ?thesis by simp
  next
    case False
    obtain changed updated err w' where
      sc: "scaleReplicaSetAndRecordEvent c x 0 r w = ((changed, updated, err), w')"
      by (metis prod.exhaust)
    show ?thesis
    proof (cases err)
      case None
      with Cons.prems False sc
      have "snd (fst (scaleDownLoop c r xs (t + rsReplicas x) w')) = None"
        by simp
      from Cons.IH [OF this] False sc None show ?thesis
        by (simp add: add.assoc)
    next
      case (Some e)
      with Cons.prems False sc show ?thesis by simp
    qed
  qed
qed

lemma scaleDownLoop_no_error:
  "(\<forall>rs n w. snd (snd (fst (scaleReplicaSetAndRecordEvent c rs n r w))) = None) \<Longrightarrow>
     snd (fst (scaleDownLoop c r xs t w)) = None"
proof (induction xs arbitrary: t w)
  case Nil
  then show ?case by simp
next
  case (Cons x xs)
  obtain changed updated err w' where
    sc: "scaleReplicaSetAndRecordEvent c x 0 r w = ((changed, updated, err), w')"
    by (metis prod.exhaust)
  from Cons.prems have "snd (snd (fst (scaleReplicaSetAndRecordEvent c x 0 r w))) = None"
    by blast
  with sc have "err = None" by simp
  with Cons sc show ?case by simp
qed

lemma scaleDownLoop_traced_log:
  "\<exists>ys zs. filter (\<lambda>rs. rsReplicas rs \<noteq> 0) xs = ys @ zs
     \<and> snd (snd (scaleDownLoop (traced c) r xs t (w, log)))
         = log @ map (\<lambda>rs. CallScale rs 0) ys"
proof (induction xs arbitrary: t w log)
  case Nil
  then show ?case by simp
next
  case (Cons x xs)
  show ?case
  proof (cases "rsReplicas x = 0")
    case True
    with Cons.IH [of t w log] show ?thesis by simp
  next
    case False
    obtain changed updated err w' where
      sc: "scaleReplicaSetAndRecordEvent c x 0 r w = ((changed, updated, err), w')"
      by (metis prod.exhaust)
    show ?thesis
    proof (cases err)
      case None
      from Cons.IH [of "t + rsReplicas x" w' "log @ [CallScale x 0]"]
      obtain ys zs where
        "filter (\<lambda>rs. rsReplicas rs \<noteq> 0) xs = ys @ zs"
        "snd (snd (scaleDownLoop (traced c) r xs (t + rsReplicas x) (w', log @ [CallScale x 0])))
           = (log @ [CallScale x 0]) @ map (\<lambda>rs. CallScale rs 0) ys"
        by blast
      with False sc None have
        "filter (\<lambda>rs. rsReplicas rs \<noteq> 0) (x # xs) = (x # ys) @ zs
         \<and> snd (snd (scaleDownLoop (traced c) r (x # xs) t (w, log)))
             = log @ map (\<lambda>rs. CallScale rs 0) (x # ys)"
        by (simp add: traced_scale)
      then show ?thesis by blast
    next
      case (Some e)
      with False sc have
        "filter (\<lambda>rs. rsReplicas rs \<noteq> 0) (x # xs) = [x] @ filter (\<lambda>rs. rsReplicas rs \<noteq> 0) xs
         \<and> snd (snd (scaleDownLoop (traced c) r (x # xs) t (w, log)))
             = log @ map (\<lambda>rs. CallScale rs 0) [x]"
        by (simp add: traced_scale)
      then show ?thesis by blast
    qed
  qed
qed

text \<open>The sort puts distinct creation timestamps in strictly increasing order.\<close>

lemma distinct_map_insort_key:
  "distinct (map f (insort_key k x xs)) = (f x \<notin> f ` set xs \<and> distinct (map f xs))"
  by (induction xs) (auto simp add: set_insort_key)

lemma distinct_map_sort_key:
  "distinct (map f (sort_key k xs)) = distinct (map f xs)"
  by (induction xs) (simp_all add: distinct_map_insort_key)

lemma sortByCreationTimestamp_strict:
  assumes "distinct (map rsCreationTimestamp oldRSs)"
  shows "sorted_wrt (\<lambda>a b. rsCreationTimestamp a < rsCreationTimestamp b)
           (sortByCreationTimestamp oldRSs)"
proof -
  let ?k = "\<lambda>rs. (rsCreationTimestamp rs, rsName rs)"
  have "sorted (map ?k (sort_key ?k oldRSs))"
    by (rule sorted_sort_key)
  then have "sorted_wrt (\<lambda>a b. ?k a \<le> ?k b) (sort_key ?k oldRSs)"
    by (simp add: sorted_wrt_map)
  then have "sorted_wrt (\<lambda>a b. rsCreationTimestamp a \<le> rsCreationTimestamp b) (sort_key ?k oldRSs)"
    by (rule sorted_wrt_mono_rel [rotated]) (auto simp add: less_eq_prod_def)
  then have "sorted (map rsCreationTimestamp (sort_key ?k oldRSs))"
    by (simp add: sorted_wrt_map)
  moreover from assms have "distinct (map rsCreationTimestamp (sort_key ?k oldRSs))"
    by (simp add: distinct_map_sort_key)
  ultimately have "sorted_wrt (<) (map rsCreationTimestamp (sort_key ?k oldRSs))"
    by (simp add: strict_sorted_iff)
  then show ?thesis
    by (simp add: sorted_wrt_map sortByCreationTimestamp_def)
qed

text \<open>The eviction loop: one visit of a group, the calls of a run, its result.\<close>

lemma cleanupLoop_skip:
  "rsReplicas x = 0 \<or> rsReplicas x = rsAvailableReplicas x \<Longrightarrow>
     cleanupLoop c r visited (x # xs) t w = cleanupLoop c r (visited @ [x]) xs t w"
  by (cases "rsReplicas x = 0") simp_all

lemma cleanupLoop_fatal:
  "rsReplicas x \<noteq> 0 \<Longrightarrow> rsReplicas x <s rsAvailableReplicas x \<Longrightarrow>
     cleanupLoop c r visited (x # xs) t w
       = (([], 0, Some (InvalidScaleDownRequest (rsNamespace x) (rsName x) (rsReplicas x)
                          (rsAvailableReplicas x))), w)"
  by (cases "rsReplicas x = rsAvailableReplicas x") (simp_all add: Let_def)

lemma cleanupLoop_evict:
  "rsReplicas x \<noteq> 0 \<Longrightarrow> rsReplicas x \<noteq> rsAvailableReplicas x \<Longrightarrow>
   \<not> rsReplicas x <s rsAvailableReplicas x \<Longrightarrow>
     cleanupLoop c r visited (x # xs) t w
       = (case scaleReplicaSetAndRecordEvent c x (rsAvailableReplicas x) r w of
            ((_, _, Some err), w') \<Rightarrow> (([], t, Some err), w')
          | ((_, updatedOldRS, None), w') \<Rightarrow>
              cleanupLoop c r (visited @ [updatedOldRS]) xs
                (t + (rsReplicas x - rsAvailableReplicas x)) w')"
  by (simp add: Let_def)

lemma scaleCalls_append: "scaleCalls (xs @ ys) = scaleCalls xs @ scaleCalls ys"
  by (induction xs rule: scaleCalls.induct) simp_all

lemma scaleCalls_map_CallScale:
  "scaleCalls (map (\<lambda>rs. CallScale rs (f rs)) ys) = map (\<lambda>rs. (rs, f rs)) ys"
  by (induction ys) simp_all

lemma cleanupLoop_traced_log:
  "\<exists>ys zs. filter (\<lambda>rs. rsReplicas rs \<noteq> 0 \<and> rsReplicas rs \<noteq> rsAvailableReplicas rs) xs = ys @ zs
     \<and> (\<forall>rs \<in> set ys. \<not> rsReplicas rs <s rsAvailableReplicas rs)
     \<and> snd (snd (cleanupLoop (traced c) r visited xs t (w, log)))
         = log @ map (\<lambda>rs. CallScale rs (rsAvailableReplicas rs)) ys"
proof (induction xs arbitrary: visited t w log)
  case Nil
  then show ?case by simp
next
  case (Cons x xs)
  let ?needs = "\<lambda>rs. rsReplicas rs \<noteq> 0 \<and> rsReplicas rs \<noteq> rsAvailableReplicas rs"
  let ?mk = "\<lambda>rs. CallScale rs (rsAvailableReplicas rs)"
  show ?case
  proof (cases "?needs x")
    case False
    with Cons.IH [of "visited @ [x]" t w log] show ?thesis by auto
  next
    case needs: True
    show ?thesis
    proof (cases "rsReplicas x <s rsAvailableReplicas x")
      case True
      with needs have
        "filter ?needs (x # xs) = [] @ (x # filter ?needs xs)
         \<and> (\<forall>rs \<in> set []. \<not> rsReplicas rs <s rsAvailableReplicas rs)
         \<and> snd (snd (cleanupLoop (traced c) r visited (x # xs) t (w, log))) = log @ map ?mk []"
        by (simp add: Let_def)
      then show ?thesis by blast
    next
      case valid: False
      obtain changed updated err w' where
        sc: "scaleReplicaSetAndRecordEvent c x (rsAvailableReplicas x) r w
               = ((changed, updated, err), w')"
        by (metis prod.exhaust)
      show ?thesis
      proof (cases err)
        case None
        from Cons.IH [of "visited @ [updated]" "t + (rsReplicas x - rsAvailableReplicas x)" w'
            "log @ [?mk x]"]
        obtain ys zs where ih:
          "filter ?needs xs = ys @ zs"
          "\<forall>rs \<in> set ys. \<not> rsReplicas rs <s rsAvailableReplicas rs"
          "snd (snd (cleanupLoop (traced c) r (visited @ [updated]) xs
                 (t + (rsReplicas x - rsAvailableReplicas x)) (w', log @ [?mk x])))
             = (log @ [?mk x]) @ map ?mk ys"
          by blast
        with needs valid sc None have
          "filter ?needs (x # xs) = (x # ys) @ zs
           \<and> (\<forall>rs \<in> set (x # ys). \<not> rsReplicas rs <s rsAvailableReplicas rs)
           \<and> snd (snd (cleanupLoop (traced c) r visited (x # xs) t (w, log)))
               = log @ map ?mk (x # ys)"
          by (simp add: traced_scale Let_def)
        then show ?thesis by blast
      next
        case (Some e)
        with needs valid sc have
          "filter ?needs (x # xs) = [x] @ filter ?needs xs
           \<and> (\<forall>rs \<in> set [x]. \<not> rsReplicas rs <s rsAvailableReplicas rs)
           \<and> snd (snd (cleanupLoop (traced c) r visited (x # xs) t (w, log)))
               = log @ map ?mk [x]"
          by (simp add: traced_scale Let_def)
        then show ?thesis by blast
      qed
    qed
  qed
qed

lemma cleanupLoop_invalid:
  "\<exists>rs \<in> set xs. rsReplicas rs \<noteq> 0 \<and> rsReplicas rs <s rsAvailableReplicas rs \<Longrightarrow>
     fst (fst (cleanupLoop c r visited xs t w)) = []
     \<and> snd (snd (fst (cleanupLoop c r visited xs t w))) \<noteq> None"
proof (induction xs arbitrary: visited t w)
  case Nil
  then show ?case by simp
next
  case (Cons x xs)
  show ?case
  proof (cases "rsReplicas x \<noteq> 0 \<and> rsReplicas x <s rsAvailableReplicas x")
    case True
    then have "rsReplicas x \<noteq> rsAvailableReplicas x" by auto
    with True show ?thesis by (simp add: Let_def)
  next
    case False
    with Cons.prems have rest:
      "\<exists>rs \<in> set xs. rsReplicas rs \<noteq> 0 \<and> rsReplicas rs <s rsAvailableReplicas rs"
      by auto
    obtain changed updated err w' where
      sc: "scaleReplicaSetAndRecordEvent c x (rsAvailableReplicas x) r w
             = ((changed, updated, err), w')"
      by (metis prod.exhaust)
    from False sc Cons.IH [OF rest] show ?thesis
      by (cases err) (auto simp add: Let_def)
  qed
qed

lemma cleanupLoop_result:
  "snd (snd (fst (cleanupLoop c r visited xs t w))) = None \<Longrightarrow>
     \<exists>ys. fst (fst (cleanupLoop c r visited xs t w)) = visited @ ys
       \<and> list_all2 (\<lambda>old new.
            if rsReplicas old = 0 \<or> rsReplicas old = rsAvailableReplicas old then new = old
            else \<exists>w0. new = fst (snd (fst
                   (scaleReplicaSetAndRecordEvent c old (rsAvailableReplicas old) r w0))))
          xs ys"
proof (induction xs arbitrary: visited t w)
  case Nil
  then show ?case by simp
next
  case (Cons x xs)
  let ?R = "\<lambda>old new.
            if rsReplicas old = 0 \<or> rsReplicas old = rsAvailableReplicas old then new = old
            else \<exists>w0. new = fst (snd (fst
                   (scaleReplicaSetAndRecordEvent c old (rsAvailableReplicas old) r w0)))"
  show ?case
  proof (cases "rsReplicas x = 0 \<or> rsReplicas x = rsAvailableReplicas x")
    case True
    note skip = cleanupLoop_skip [OF True, of c r visited xs t w]
    from Cons.prems have "snd (snd (fst (cleanupLoop c r (visited @ [x]) xs t w))) = None"
      by (simp only: skip)
    from Cons.IH [OF this] obtain ys where
      "fst (fst (cleanupLoop c r (visited @ [x]) xs t w)) = (visited @ [x]) @ ys"
      "list_all2 ?R xs ys"
      by blast
    with True have
      "fst (fst (cleanupLoop c r visited (x # xs) t w)) = visited @ (x # ys)
       \<and> list_all2 ?R (x # xs) (x # ys)"
      by (simp only: skip) simp
    then show ?thesis by blast
  next
    case False
    then have nz: "rsReplicas x \<noteq> 0" and ne: "rsReplicas x \<noteq> rsAvailableReplicas x"
      by simp_all
    obtain changed updated err w' where
      sc: "scaleReplicaSetAndRecordEvent c x (rsAvailableReplicas x) r w
             = ((changed, updated, err), w')"
      by (metis prod.exhaust)
    have valid: "\<not> rsReplicas x <s rsAvailableReplicas x"
    proof
      assume "rsReplicas x <s rsAvailableReplicas x"
      from cleanupLoop_fatal [OF nz this, of c r visited xs t w] Cons.prems
      show False by simp
    qed
    note evict = cleanupLoop_evict [OF nz ne valid, of c r visited xs t w]
    from Cons.prems sc have err: "err = None"
      by (cases err) (simp_all only: evict, simp_all)
    with Cons.prems sc have
      "snd (snd (fst (cleanupLoop c r (visited @ [updated]) xs
          (t + (rsReplicas x - rsAvailableReplicas x)) w'))) = None"
      by (simp only: evict) simp
    from Cons.IH [OF this] obtain ys where ih:
      "fst (fst (cleanupLoop c r (visited @ [updated]) xs
          (t + (rsReplicas x - rsAvailableReplicas x)) w')) = (visited @ [updated]) @ ys"
      "list_all2 ?R xs ys"
      by blast
    from sc have "updated = fst (snd (fst
        (scaleReplicaSetAndRecordEvent c x (rsAvailableReplicas x) r w)))"
      by simp
    with False have "?R x updated" by auto
    with sc err ih have
      "fst (fst (cleanupLoop c r visited (x # xs) t w)) = visited @ (updated # ys)
       \<and> list_all2 ?R (x # xs) (updated # ys)"
      by (simp only: evict) simp
    then show ?thesis by blast
  qed
qed

text \<open>The logging collaborators, call by call, and the pass's building blocks.\<close>

lemma traced_getAllReplicaSetsAndSyncRevision:
  "getAllReplicaSetsAndSyncRevision (traced c) r rsList b s =
     (case getAllReplicaSetsAndSyncRevision c r rsList b (fst s) of
        (res, w') \<Rightarrow> (res, (w', snd s @ [CallSyncRevision])))"
  by (simp add: traced_def)

lemma traced_getPreviewAndActiveServices:
  "getPreviewAndActiveServices (traced c) r s =
     (case getPreviewAndActiveServices c r (fst s) of
        (res, w') \<Rightarrow> (res, (w', snd s @ [CallGetServices])))"
  by (simp add: traced_def)

lemma traced_reconcilePreviewService:
  "reconcilePreviewService (traced c) r newRS p a s =
     (case reconcilePreviewService c r newRS p a (fst s) of
        (res, w') \<Rightarrow> (res, (w', snd s @ [CallPreviewCutover])))"
  by (simp add: traced_def)

lemma traced_reconcileActiveService:
  "reconcileActiveService (traced c) r newRS p a s =
     (case reconcileActiveService c r newRS p a (fst s) of
        (res, w') \<Rightarrow> (res, (w', snd s @ [CallActiveCutover])))"
  by (simp add: traced_def)

lemma traced_cleanupRollouts:
  "cleanupRollouts (traced c) oldRSs r s =
     (case cleanupRollouts c oldRSs r (fst s) of
        (res, w') \<Rightarrow> (res, (w', snd s @ [CallCleanup])))"
  by (simp add: traced_def)

lemma traced_syncRolloutStatus:
  "syncRolloutStatus (traced c) allRSs newRS p a r s =
     (case syncRolloutStatus c allRSs newRS p a r (fst s) of
        (res, w') \<Rightarrow> (res, (w', snd s @ [CallSyncStatus])))"
  by (simp add: traced_def)

lemma syncAndReturn_traced:
  "syncAndReturn (traced c) allRSs newRS p a r (w, log) =
     (fst (syncAndReturn c allRSs newRS p a r w),
      (snd (syncAndReturn c allRSs newRS p a r w), log @ [CallSyncStatus]))"
  by (simp add: syncAndReturn_def traced_syncRolloutStatus split: prod.splits)

lemma syncAndReturn_no_panic: "\<exists>e. fst (syncAndReturn c allRSs newRS p a r w) = Inr e"
  by (simp add: syncAndReturn_def split: prod.splits)

text \<open>The calls of the New Group Scaler: none, or one scale call on the new group.\<close>

lemma reconcileNewReplicaSet_traced:
  "\<exists>cs. (cs = [] \<or> (\<exists>n. cs = [CallScale newRS n]))
     \<and> (\<forall>log. reconcileNewReplicaSet d (traced c) allRSs newRS r (w, log)
           = (fst (reconcileNewReplicaSet d c allRSs newRS r w),
              (snd (reconcileNewReplicaSet d c allRSs newRS r w), log @ cs)))"
proof (cases "rsReplicas newRS = GetRolloutReplicasOrDefault d r")
  case True
  then have "\<forall>log. reconcileNewReplicaSet d (traced c) allRSs newRS r (w, log)
           = (fst (reconcileNewReplicaSet d c allRSs newRS r w),
              (snd (reconcileNewReplicaSet d c allRSs newRS r w), log @ []))"
    by (simp add: reconcileNewReplicaSet_def)
  then show ?thesis by blast
next
  case ne: False
  show ?thesis
  proof (cases "GetRolloutReplicasOrDefault d r <s rsReplicas newRS")
    case True
    with ne have "\<forall>log. reconcileNewReplicaSet d (traced c) allRSs newRS r (w, log)
           = (fst (reconcileNewReplicaSet d c allRSs newRS r w),
              (snd (reconcileNewReplicaSet d c allRSs newRS r w),
               log @ [CallScale newRS (GetRolloutReplicasOrDefault d r)]))"
      by (simp add: reconcileNewReplicaSet_def traced_scale split: prod.splits)
    then show ?thesis by blast
  next
    case False
    obtain n e where ramp: "NewRSNewReplicas d r allRSs newRS = (n, e)"
      by (metis prod.exhaust)
    show ?thesis
    proof (cases e)
      case None
      with ne False ramp have "\<forall>log. reconcileNewReplicaSet d (traced c) allRSs newRS r (w, log)
           = (fst (reconcileNewReplicaSet d c allRSs newRS r w),
              (snd (reconcileNewReplicaSet d c allRSs newRS r w), log @ [CallScale newRS n]))"
        by (simp add: reconcileNewReplicaSet_def traced_scale split: prod.splits)
      then show ?thesis by blast
    next
      case (Some err)
      with ne False ramp have "\<forall>log. reconcileNewReplicaSet d (traced c) allRSs newRS r (w, log)
           = (fst (reconcileNewReplicaSet d c allRSs newRS r w),
              (snd (reconcileNewReplicaSet d c allRSs newRS r w), log @ []))"
        by (simp add: reconcileNewReplicaSet_def)
      then show ?thesis by blast
    qed
  qed
qed

text \<open>
  \<^verbatim>\<open>reconcileOldReplicaSets\<close> never returns an error; a collaborator that kept its
  contract and reported nothing left the world alone.
\<close>

lemma reconcileOldReplicaSets_no_error:
  "snd (fst (reconcileOldReplicaSets d c allRSs oldRSs newRS r w)) = None"
  by (simp add: reconcileOldReplicaSets_def Let_def split: prod.splits option.splits)

lemma reconcileOldReplicaSets_result:
  "reconcileOldReplicaSets d c allRSs oldRSs newRS r w = ((scaledDown, e), w') \<Longrightarrow> e = None"
  using reconcileOldReplicaSets_no_error [of d c allRSs oldRSs newRS r w] by simp

lemma reconcileNewReplicaSet_unchanged:
  assumes "reportsChanges c"
    and "reconcileNewReplicaSet d c allRSs newRS r w = ((False, None), w')"
  shows "w' = w"
proof -
  have scale: "w'' = w"
    if "scaleReplicaSetAndRecordEvent c newRS n r w = ((False, updated, None), w'')"
    for n updated w''
  proof -
    from assms(1) have
      "fst (fst (scaleReplicaSetAndRecordEvent c newRS n r w))
       \<or> snd (snd (fst (scaleReplicaSetAndRecordEvent c newRS n r w))) \<noteq> None
       \<or> snd (scaleReplicaSetAndRecordEvent c newRS n r w) = w"
      unfolding reportsChanges_def by blast
    with that show ?thesis by simp
  qed
  from assms(2) show ?thesis
    by (auto simp add: reconcileNewReplicaSet_def Let_def
        split: if_splits prod.splits option.splits dest: scale)
qed

lemma reconcilePreviewService_unchanged:
  assumes "reportsChanges c"
    and "reconcilePreviewService c r newRS p a w = ((False, None), w')"
  shows "w' = w"
proof -
  from assms(1) have
    "fst (fst (reconcilePreviewService c r newRS p a w))
     \<or> snd (fst (reconcilePreviewService c r newRS p a w)) \<noteq> None
     \<or> snd (reconcilePreviewService c r newRS p a w) = w"
    unfolding reportsChanges_def by blast
  with assms(2) show ?thesis by simp
qed

lemma reconcileActiveService_unchanged:
  assumes "reportsChanges c"
    and "reconcileActiveService c r newRS p a w = ((False, None), w')"
  shows "w' = w"
proof -
  from assms(1) have
    "fst (fst (reconcileActiveService c r newRS p a w))
     \<or> snd (fst (reconcileActiveService c r newRS p a w)) \<noteq> None
     \<or> snd (reconcileActiveService c r newRS p a w) = w"
    unfolding reportsChanges_def by blast
  with assms(2) show ?thesis by simp
qed

text \<open>
  The logging collaborators are faithful observers: run with \<open>traced c\<close>, every function
  of the file returns what it returns with \<open>c\<close> and leaves the world \<open>c\<close> leaves.
\<close>

lemma observed_run:
  assumes "fst t = fst b \<and> fst (snd t) = snd b" and "b = (res, w')"
  shows "\<exists>log'. t = (res, (w', log'))"
  using assms by (cases t) auto

lemma scaleDownLoop_traced:
  "fst (scaleDownLoop (traced c) r xs t (w, log)) = fst (scaleDownLoop c r xs t w)
   \<and> fst (snd (scaleDownLoop (traced c) r xs t (w, log))) = snd (scaleDownLoop c r xs t w)"
proof (induction xs arbitrary: t w log)
  case Nil
  then show ?case by simp
next
  case (Cons x xs)
  obtain changed updated err w' where
    sc: "scaleReplicaSetAndRecordEvent c x 0 r w = ((changed, updated, err), w')"
    by (metis prod.exhaust)
  show ?case
  proof (cases "rsReplicas x = 0")
    case True
    with Cons.IH [of t w log] show ?thesis by simp
  next
    case False
    show ?thesis
    proof (cases err)
      case None
      with False sc Cons.IH [of "t + rsReplicas x" w' "log @ [CallScale x 0]"]
      show ?thesis by (simp add: traced_scale)
    next
      case (Some e)
      with False sc show ?thesis by (simp add: traced_scale)
    qed
  qed
qed

lemma cleanupLoop_traced:
  "fst (cleanupLoop (traced c) r visited xs t (w, log)) = fst (cleanupLoop c r visited xs t w)
   \<and> fst (snd (cleanupLoop (traced c) r visited xs t (w, log)))
       = snd (cleanupLoop c r visited xs t w)"
proof (induction xs arbitrary: visited t w log)
  case Nil
  then show ?case by simp
next
  case (Cons x xs)
  show ?case
  proof (cases "rsReplicas x = 0 \<or> rsReplicas x = rsAvailableReplicas x")
    case True
    from Cons.IH [of "visited @ [x]" t w log] show ?thesis
      by (simp only: cleanupLoop_skip [OF True])
  next
    case False
    then have nz: "rsReplicas x \<noteq> 0" and ne: "rsReplicas x \<noteq> rsAvailableReplicas x"
      by simp_all
    show ?thesis
    proof (cases "rsReplicas x <s rsAvailableReplicas x")
      case True
      show ?thesis by (simp only: cleanupLoop_fatal [OF nz True]) simp
    next
      case valid: False
      obtain changed updated err w' where
        sc: "scaleReplicaSetAndRecordEvent c x (rsAvailableReplicas x) r w
               = ((changed, updated, err), w')"
        by (metis prod.exhaust)
      show ?thesis
      proof (cases err)
        case None
        with sc Cons.IH [of "visited @ [updated]" "t + (rsReplicas x - rsAvailableReplicas x)" w'
            "log @ [CallScale x (rsAvailableReplicas x)]"]
        show ?thesis
          by (simp only: cleanupLoop_evict [OF nz ne valid]) (simp add: traced_scale)
      next
        case (Some e)
        with sc show ?thesis
          by (simp only: cleanupLoop_evict [OF nz ne valid]) (simp add: traced_scale)
      qed
    qed
  qed
qed

lemma cleanupUnhealthyReplicas_traced:
  "fst (cleanupUnhealthyReplicas (traced c) oldRSs r (w, log))
     = fst (cleanupUnhealthyReplicas c oldRSs r w)
   \<and> fst (snd (cleanupUnhealthyReplicas (traced c) oldRSs r (w, log)))
       = snd (cleanupUnhealthyReplicas c oldRSs r w)"
  by (simp add: cleanupUnhealthyReplicas_def cleanupLoop_traced)

lemma scaleDownOldReplicaSetsForBlueGreen_traced:
  "fst (scaleDownOldReplicaSetsForBlueGreen d (traced c) allRSs oldRSs r (w, log))
     = fst (scaleDownOldReplicaSetsForBlueGreen d c allRSs oldRSs r w)
   \<and> fst (snd (scaleDownOldReplicaSetsForBlueGreen d (traced c) allRSs oldRSs r (w, log)))
       = snd (scaleDownOldReplicaSetsForBlueGreen d c allRSs oldRSs r w)"
  by (simp add: scaleDownOldReplicaSetsForBlueGreen_def Let_def scaleDownLoop_traced)

lemma reconcileOldReplicaSets_traced:
  "fst (reconcileOldReplicaSets d (traced c) allRSs oldRSs newRS r (w, log))
     = fst (reconcileOldReplicaSets d c allRSs oldRSs newRS r w)
   \<and> fst (snd (reconcileOldReplicaSets d (traced c) allRSs oldRSs newRS r (w, log)))
       = snd (reconcileOldReplicaSets d c allRSs oldRSs newRS r w)"
proof -
  obtain l1 c1 e1 w1 where
    cl: "cleanupUnhealthyReplicas c oldRSs r w = ((l1, c1, e1), w1)"
    by (metis prod.exhaust)
  from observed_run [OF cleanupUnhealthyReplicas_traced [of c oldRSs r w log] cl]
  obtain log1 where
    cl': "cleanupUnhealthyReplicas (traced c) oldRSs r (w, log) = ((l1, c1, e1), (w1, log1))"
    by blast
  obtain c2 e2 w2 where
    sd: "scaleDownOldReplicaSetsForBlueGreen d c (l1 @ [newRS]) l1 r w1 = ((c2, e2), w2)"
    by (metis prod.exhaust)
  from observed_run
    [OF scaleDownOldReplicaSetsForBlueGreen_traced [of d c "l1 @ [newRS]" l1 r w1 log1] sd]
  obtain log2 where
    sd': "scaleDownOldReplicaSetsForBlueGreen d (traced c) (l1 @ [newRS]) l1 r (w1, log1)
            = ((c2, e2), (w2, log2))"
    by blast
  from cl cl' sd sd' show ?thesis
    by (cases e1; cases e2) (simp_all add: reconcileOldReplicaSets_def Let_def)
qed

lemma syncAndReturn_traced_result:
  "fst (syncAndReturn (traced c) allRSs newRS p a r (w, log))
     = fst (syncAndReturn c allRSs newRS p a r w)
   \<and> fst (snd (syncAndReturn (traced c) allRSs newRS p a r (w, log)))
       = snd (syncAndReturn c allRSs newRS p a r w)"
  by (simp add: syncAndReturn_traced)

lemma rolloutBlueGreenTail_traced:
  "fst (rolloutBlueGreenTail d (traced c) r allRSs newRS oldRSs p a (w, log))
     = fst (rolloutBlueGreenTail d c r allRSs newRS oldRSs p a w)
   \<and> fst (snd (rolloutBlueGreenTail d (traced c) r allRSs newRS oldRSs p a (w, log)))
       = snd (rolloutBlueGreenTail d c r allRSs newRS oldRSs p a w)"
proof -
  obtain sw e1 w1 where act: "reconcileActiveService c r newRS p a w = ((sw, e1), w1)"
    by (metis prod.exhaust)
  then have act': "reconcileActiveService (traced c) r newRS p a (w, log)
      = ((sw, e1), (w1, log @ [CallActiveCutover]))"
    by (simp add: traced_reconcileActiveService)
  let ?olds = "FilterActiveReplicaSets d oldRSs"
  obtain sd e2 w2 where
    old: "reconcileOldReplicaSets d c allRSs ?olds newRS r w1 = ((sd, e2), w2)"
    by (metis prod.exhaust)
  from observed_run
    [OF reconcileOldReplicaSets_traced [of d c allRSs ?olds newRS r w1 "log @ [CallActiveCutover]"]
      old]
  obtain log2 where
    old': "reconcileOldReplicaSets d (traced c) allRSs ?olds newRS r
             (w1, log @ [CallActiveCutover]) = ((sd, e2), (w2, log2))"
    by blast
  obtain e3 w3 where cu: "cleanupRollouts c oldRSs r w2 = (e3, w3)"
    by (metis prod.exhaust)
  then have cu': "cleanupRollouts (traced c) oldRSs r (w2, log2) = (e3, (w3, log2 @ [CallCleanup]))"
    by (simp add: traced_cleanupRollouts)
  from act act' old old' cu cu' show ?thesis
    by (cases e1; cases e2; cases e3)
      (simp_all add: rolloutBlueGreenTail_def syncAndReturn_traced)
qed

lemma rolloutBlueGreen_traced:
  "fst (rolloutBlueGreen d (traced c) r rsList (w, log)) = fst (rolloutBlueGreen d c r rsList w)
   \<and> fst (snd (rolloutBlueGreen d (traced c) r rsList (w, log)))
       = snd (rolloutBlueGreen d c r rsList w)"
proof -
  obtain newRS oldRSs e1 w1 where
    rev: "getAllReplicaSetsAndSyncRevision c r rsList True w = ((newRS, oldRSs, e1), w1)"
    by (metis prod.exhaust)
  then have rev': "getAllReplicaSetsAndSyncRevision (traced c) r rsList True (w, log)
      = ((newRS, oldRSs, e1), (w1, log @ [CallSyncRevision]))"
    by (simp add: traced_getAllReplicaSetsAndSyncRevision)
  obtain p a e2 w2 where svc: "getPreviewAndActiveServices c r w1 = ((p, a, e2), w2)"
    by (metis prod.exhaust)
  then have svc': "getPreviewAndActiveServices (traced c) r (w1, log @ [CallSyncRevision])
      = ((p, a, e2), (w2, log @ [CallSyncRevision, CallGetServices]))"
    by (simp add: traced_getPreviewAndActiveServices)
  let ?allRSs = "oldRSs @ [newRS]"
  obtain up e3 w3 where
    new: "reconcileNewReplicaSet d c ?allRSs newRS r w2 = ((up, e3), w3)"
    by (metis prod.exhaust)
  with reconcileNewReplicaSet_traced [of newRS d c ?allRSs r w2]
  obtain log3 where
    new': "reconcileNewReplicaSet d (traced c) ?allRSs newRS r
             (w2, log @ [CallSyncRevision, CallGetServices]) = ((up, e3), (w3, log3))"
    by auto
  obtain sw e4 w4 where pre: "reconcilePreviewService c r newRS p a w3 = ((sw, e4), w4)"
    by (metis prod.exhaust)
  then have pre': "reconcilePreviewService (traced c) r newRS p a (w3, log3)
      = ((sw, e4), (w4, log3 @ [CallPreviewCutover]))"
    by (simp add: traced_reconcilePreviewService)
  from rev rev' svc svc' new new' pre pre' show ?thesis
    by (cases e1; cases e2; cases e3; cases e4; cases "reconcileVerifyingPreview d a r")
      (simp_all add: rolloutBlueGreen_def Let_def syncAndReturn_traced rolloutBlueGreenTail_traced)
qed

lemma sum_list_map_filter_sortByCreationTimestamp:
  fixes f :: "replicaSet \<Rightarrow> int32"
  shows "sum_list (map f (filter P (sortByCreationTimestamp oldRSs)))
     = sum_list (map f (filter P oldRSs))"
  by (simp add: sortByCreationTimestamp_def filter_sort sum_list_map_sort_key)


lemma cleanupLoop_traced_complete:
  "snd (snd (fst (cleanupLoop (traced c) r visited xs t (w, log)))) = None \<Longrightarrow>
     snd (snd (cleanupLoop (traced c) r visited xs t (w, log)))
       = log @ map (\<lambda>rs. CallScale rs (rsAvailableReplicas rs))
           (filter (\<lambda>rs. rsReplicas rs \<noteq> 0 \<and> rsReplicas rs \<noteq> rsAvailableReplicas rs) xs)"
proof (induction xs arbitrary: visited t w log)
  case Nil
  then show ?case by simp
next
  case (Cons x xs)
  let ?needs = "\<lambda>rs. rsReplicas rs \<noteq> 0 \<and> rsReplicas rs \<noteq> rsAvailableReplicas rs"
  show ?case
  proof (cases "rsReplicas x = 0 \<or> rsReplicas x = rsAvailableReplicas x")
    case True
    then have flt: "filter ?needs (x # xs) = filter ?needs xs" by auto
    from Cons.prems
    have "snd (snd (fst (cleanupLoop (traced c) r (visited @ [x]) xs t (w, log)))) = None"
      by (simp only: cleanupLoop_skip [OF True])
    from Cons.IH [OF this] show ?thesis
      by (simp only: cleanupLoop_skip [OF True] flt)
  next
    case False
    then have nz: "rsReplicas x \<noteq> 0" and ne: "rsReplicas x \<noteq> rsAvailableReplicas x"
      by simp_all
    then have flt: "filter ?needs (x # xs) = x # filter ?needs xs" by simp
    have valid: "\<not> rsReplicas x <s rsAvailableReplicas x"
    proof
      assume "rsReplicas x <s rsAvailableReplicas x"
      from cleanupLoop_fatal [OF nz this, of "traced c" r visited xs t "(w, log)"] Cons.prems
      show False by simp
    qed
    note evict = cleanupLoop_evict [OF nz ne valid, of "traced c" r visited xs t "(w, log)"]
    obtain changed updated err w' where
      sc: "scaleReplicaSetAndRecordEvent c x (rsAvailableReplicas x) r w
             = ((changed, updated, err), w')"
      by (metis prod.exhaust)
    let ?t' = "t + (rsReplicas x - rsAvailableReplicas x)"
    let ?log' = "log @ [CallScale x (rsAvailableReplicas x)]"
    show ?thesis
    proof (cases err)
      case None
      with sc have run:
        "cleanupLoop (traced c) r visited (x # xs) t (w, log)
           = cleanupLoop (traced c) r (visited @ [updated]) xs ?t' (w', ?log')"
        by (simp only: evict) (simp add: traced_scale)
      from Cons.prems have
        "snd (snd (fst (cleanupLoop (traced c) r (visited @ [updated]) xs ?t' (w', ?log')))) = None"
        by (simp only: run)
      from Cons.IH [OF this] show ?thesis
        by (simp only: run flt) simp
    next
      case (Some e)
      with sc have
        "cleanupLoop (traced c) r visited (x # xs) t (w, log) = (([], t, Some e), (w', ?log'))"
        by (simp only: evict) (simp add: traced_scale)
      with Cons.prems show ?thesis by simp
    qed
  qed
qed

lemma cleanupLoop_count:
  "snd (snd (fst (cleanupLoop c r visited xs t w))) = None \<Longrightarrow>
     fst (snd (fst (cleanupLoop c r visited xs t w)))
       = t + sum_list (map (\<lambda>rs. rsReplicas rs - rsAvailableReplicas rs)
               (filter (\<lambda>rs. rsReplicas rs \<noteq> 0 \<and> rsReplicas rs \<noteq> rsAvailableReplicas rs) xs))"
proof (induction xs arbitrary: visited t w)
  case Nil
  then show ?case by simp
next
  case (Cons x xs)
  show ?case
  proof (cases "rsReplicas x = 0 \<or> rsReplicas x = rsAvailableReplicas x")
    case True
    then have flt:
      "filter (\<lambda>rs. rsReplicas rs \<noteq> 0 \<and> rsReplicas rs \<noteq> rsAvailableReplicas rs) (x # xs)
         = filter (\<lambda>rs. rsReplicas rs \<noteq> 0 \<and> rsReplicas rs \<noteq> rsAvailableReplicas rs) xs"
      by auto
    from Cons.prems have "snd (snd (fst (cleanupLoop c r (visited @ [x]) xs t w))) = None"
      by (simp only: cleanupLoop_skip [OF True])
    from Cons.IH [OF this] show ?thesis
      by (simp only: cleanupLoop_skip [OF True] flt)
  next
    case False
    then have nz: "rsReplicas x \<noteq> 0" and ne: "rsReplicas x \<noteq> rsAvailableReplicas x"
      by simp_all
    have valid: "\<not> rsReplicas x <s rsAvailableReplicas x"
    proof
      assume "rsReplicas x <s rsAvailableReplicas x"
      from cleanupLoop_fatal [OF nz this, of c r visited xs t w] Cons.prems
      show False by simp
    qed
    note evict = cleanupLoop_evict [OF nz ne valid, of c r visited xs t w]
    obtain changed updated err w' where
      sc: "scaleReplicaSetAndRecordEvent c x (rsAvailableReplicas x) r w
             = ((changed, updated, err), w')"
      by (metis prod.exhaust)
    from Cons.prems sc have err: "err = None"
      by (cases err) (simp_all only: evict, simp_all)
    let ?t' = "t + (rsReplicas x - rsAvailableReplicas x)"
    from sc err have run:
      "cleanupLoop c r visited (x # xs) t w = cleanupLoop c r (visited @ [updated]) xs ?t' w'"
      by (simp only: evict) simp
    from Cons.prems have "snd (snd (fst (cleanupLoop c r (visited @ [updated]) xs ?t' w'))) = None"
      by (simp only: run)
    from Cons.IH [OF this] nz ne show ?thesis
      by (simp only: run) (simp add: add.assoc)
  qed
qed

lemma cleanupLoop_replay:
  "\<exists>ys zs. filter (\<lambda>rs. rsReplicas rs \<noteq> 0 \<and> rsReplicas rs \<noteq> rsAvailableReplicas rs) xs = ys @ zs
     \<and> (\<forall>rs \<in> set ys. \<not> rsReplicas rs <s rsAvailableReplicas rs)
     \<and> snd (snd (cleanupLoop (traced c) r visited xs t (w, log)))
         = log @ map (\<lambda>rs. CallScale rs (rsAvailableReplicas rs)) ys
     \<and> snd (cleanupLoop c r visited xs t w)
         = replayScales c r (map (\<lambda>rs. (rs, rsAvailableReplicas rs)) ys) w"
proof (induction xs arbitrary: visited t w log)
  case Nil
  then show ?case by simp
next
  case (Cons x xs)
  let ?needs = "\<lambda>rs. rsReplicas rs \<noteq> 0 \<and> rsReplicas rs \<noteq> rsAvailableReplicas rs"
  let ?mk = "\<lambda>rs. CallScale rs (rsAvailableReplicas rs)"
  let ?rq = "\<lambda>rs. (rs, rsAvailableReplicas rs)"
  show ?case
  proof (cases "?needs x")
    case False
    then have skip: "rsReplicas x = 0 \<or> rsReplicas x = rsAvailableReplicas x" by blast
    have flt: "filter ?needs (x # xs) = filter ?needs xs" using False by simp
    from Cons.IH [of "visited @ [x]" t w log] show ?thesis
      by (simp only: cleanupLoop_skip [OF skip] flt)
  next
    case needs: True
    then have nz: "rsReplicas x \<noteq> 0" and ne: "rsReplicas x \<noteq> rsAvailableReplicas x"
      by blast+
    have flt: "filter ?needs (x # xs) = x # filter ?needs xs" using needs by simp
    show ?thesis
    proof (cases "rsReplicas x <s rsAvailableReplicas x")
      case True
      have "filter ?needs (x # xs) = [] @ (x # filter ?needs xs)
         \<and> (\<forall>rs \<in> set []. \<not> rsReplicas rs <s rsAvailableReplicas rs)
         \<and> snd (snd (cleanupLoop (traced c) r visited (x # xs) t (w, log))) = log @ map ?mk []
         \<and> snd (cleanupLoop c r visited (x # xs) t w) = replayScales c r (map ?rq []) w"
        by (simp only: cleanupLoop_fatal [OF nz True] flt) simp
      then show ?thesis by blast
    next
      case valid: False
      obtain changed updated err w' where
        sc: "scaleReplicaSetAndRecordEvent c x (rsAvailableReplicas x) r w
               = ((changed, updated, err), w')"
        by (metis prod.exhaust)
      have tsc: "scaleReplicaSetAndRecordEvent (traced c) x (rsAvailableReplicas x) r (w, log)
               = ((changed, updated, err), (w', log @ [?mk x]))"
        by (simp add: traced_scale sc)
      show ?thesis
      proof (cases err)
        case None
        have run: "cleanupLoop c r visited (x # xs) t w
            = cleanupLoop c r (visited @ [updated]) xs
                (t + (rsReplicas x - rsAvailableReplicas x)) w'"
          by (simp only: cleanupLoop_evict [OF nz ne valid]) (simp add: sc None)
        have trun: "cleanupLoop (traced c) r visited (x # xs) t (w, log)
            = cleanupLoop (traced c) r (visited @ [updated]) xs
                (t + (rsReplicas x - rsAvailableReplicas x)) (w', log @ [?mk x])"
          by (simp only: cleanupLoop_evict [OF nz ne valid]) (simp add: tsc None)
        from Cons.IH [of "visited @ [updated]" "t + (rsReplicas x - rsAvailableReplicas x)" w'
            "log @ [?mk x]"]
        obtain ys zs where ih:
          "filter ?needs xs = ys @ zs"
          "\<forall>rs \<in> set ys. \<not> rsReplicas rs <s rsAvailableReplicas rs"
          "snd (snd (cleanupLoop (traced c) r (visited @ [updated]) xs
                 (t + (rsReplicas x - rsAvailableReplicas x)) (w', log @ [?mk x])))
             = (log @ [?mk x]) @ map ?mk ys"
          "snd (cleanupLoop c r (visited @ [updated]) xs
                 (t + (rsReplicas x - rsAvailableReplicas x)) w')
             = replayScales c r (map ?rq ys) w'"
          by blast
        have "filter ?needs (x # xs) = (x # ys) @ zs
           \<and> (\<forall>rs \<in> set (x # ys). \<not> rsReplicas rs <s rsAvailableReplicas rs)
           \<and> snd (snd (cleanupLoop (traced c) r visited (x # xs) t (w, log)))
               = log @ map ?mk (x # ys)
           \<and> snd (cleanupLoop c r visited (x # xs) t w)
               = replayScales c r (map ?rq (x # ys)) w"
          using ih valid by (simp only: run trun flt) (simp add: sc)
        then show ?thesis by blast
      next
        case (Some e)
        have run: "cleanupLoop c r visited (x # xs) t w = (([], t, Some e), w')"
          by (simp only: cleanupLoop_evict [OF nz ne valid]) (simp add: sc Some)
        have trun: "cleanupLoop (traced c) r visited (x # xs) t (w, log)
            = (([], t, Some e), (w', log @ [?mk x]))"
          by (simp only: cleanupLoop_evict [OF nz ne valid]) (simp add: tsc Some)
        have "filter ?needs (x # xs) = [x] @ filter ?needs xs
           \<and> (\<forall>rs \<in> set [x]. \<not> rsReplicas rs <s rsAvailableReplicas rs)
           \<and> snd (snd (cleanupLoop (traced c) r visited (x # xs) t (w, log)))
               = log @ map ?mk [x]
           \<and> snd (cleanupLoop c r visited (x # xs) t w)
               = replayScales c r (map ?rq [x]) w"
          using valid by (simp only: run trun flt) (simp add: sc)
        then show ?thesis by blast
      qed
    qed
  qed
qed



subsection \<open>The Safe Scale-Down Step\<close>




text \<open>
  Claim C10 (scale-down count accounting), as amended: when the total available count of
  the full group set exceeds the rollout's desired replica count and no scale call
  returns an error, \<^verbatim>\<open>scaleDownOldReplicaSetsForBlueGreen\<close> returns the sum (in \<^verbatim>\<open>int32\<close>
  arithmetic) of the prior desired counts of the old groups whose desired count is
  nonzero. The collaborator is arbitrary: the flag it reports plays no part. Stated on
  the results: whenever the step returns a nil error, the count it returns is that sum;
  and with a scale collaborator that never returns an error, the step returns a nil
  error.
\<close>

theorem scaleDownOldReplicaSetsForBlueGreen_count:
  assumes surplus:
    "GetRolloutReplicasOrDefault d rollout <s GetAvailableReplicaCountForReplicaSets allRSs"
  shows "(snd (fst (scaleDownOldReplicaSetsForBlueGreen d c allRSs oldRSs rollout w)) = None \<longrightarrow>
           fst (fst (scaleDownOldReplicaSetsForBlueGreen d c allRSs oldRSs rollout w))
             = sum_list (map rsReplicas (filter (\<lambda>rs. rsReplicas rs \<noteq> 0) oldRSs)))
         \<and> ((\<forall>rs n w. snd (snd (fst (scaleReplicaSetAndRecordEvent c rs n rollout w))) = None) \<longrightarrow>
           snd (fst (scaleDownOldReplicaSetsForBlueGreen d c allRSs oldRSs rollout w)) = None)"
proof -
  from surplus have
    "\<not> GetAvailableReplicaCountForReplicaSets allRSs \<le>s GetRolloutReplicasOrDefault d rollout"
    by (simp add: signed.not_le)
  then have run:
    "scaleDownOldReplicaSetsForBlueGreen d c allRSs oldRSs rollout w
       = scaleDownLoop c rollout (sortByCreationTimestamp oldRSs) 0 w"
    by (simp add: scaleDownOldReplicaSetsForBlueGreen_def Let_def)
  show ?thesis
    unfolding run
    using scaleDownLoop_total [of c rollout "sortByCreationTimestamp oldRSs" 0 w]
      scaleDownLoop_no_error [of c rollout "sortByCreationTimestamp oldRSs" 0 w]
    by (simp add: sum_list_filter_sortByCreationTimestamp)
qed

text \<open>
  The amended claim at work: two old groups (desired 2 and 4) and a collaborator that
  reports no change and leaves the world alone. The step still returns 6.
\<close>

theorem scaleDownOldReplicaSetsForBlueGreen_count_witness:
  "GetRolloutReplicasOrDefault (sampleDeps False) (sampleRollout 4 [] None)
     <s GetAvailableReplicaCountForReplicaSets
          [sampleRS ''y'' 2 2 2, sampleRS ''x'' 1 4 4, sampleRS ''new'' 3 4 4]
   \<and> scaleDownOldReplicaSetsForBlueGreen (sampleDeps False)
       ((sampleController None None False False False)
          \<lparr>scaleReplicaSetAndRecordEvent := \<lambda>rs n r w. ((False, rs, None), w)\<rparr>)
       [sampleRS ''y'' 2 2 2, sampleRS ''x'' 1 4 4, sampleRS ''new'' 3 4 4]
       [sampleRS ''y'' 2 2 2, sampleRS ''x'' 1 4 4]
       (sampleRollout 4 [] None) []
     = ((6, None), [])
   \<and> sum_list (map rsReplicas (filter (\<lambda>rs. rsReplicas rs \<noteq> 0)
        [sampleRS ''y'' 2 2 2, sampleRS ''x'' 1 4 4])) = 6"
  using
    scaleDownOldReplicaSetsForBlueGreen_count [of "sampleDeps False"
      "sampleRollout 4 [] None"
      "[sampleRS ''y'' 2 2 2, sampleRS ''x'' 1 4 4, sampleRS ''new'' 3 4 4]"
      "(sampleController None None False False False)
          \<lparr>scaleReplicaSetAndRecordEvent := \<lambda>rs n r w. ((False, rs, None), w)\<rparr>"
      "[sampleRS ''y'' 2 2 2, sampleRS ''x'' 1 4 4]" "[]"]
  by (simp add: scaleDownOldReplicaSetsForBlueGreen_def sampleDeps_def sampleRollout_def
      sampleRS_def GetAvailableReplicaCountForReplicaSets_def sortByCreationTimestamp_def
      sampleController_def)

text \<open>
  The claim as stated leaves the surplus guard out. Without surplus (old group x desired
  3 available 0, new group available 4, desired replicas 4) no collaborator is called,
  no error occurs, and the step returns 0, not 3.
\<close>

theorem scaleDownOldReplicaSetsForBlueGreen_count_counterexample:
  "scaleDownOldReplicaSetsForBlueGreen (sampleDeps False)
       (sampleController None None False False False)
       [sampleRS ''x'' 1 3 0, sampleRS ''new'' 2 4 4] [sampleRS ''x'' 1 3 0]
       (sampleRollout 4 [] None) []
     = ((0, None), [])
   \<and> sum_list (map rsReplicas (filter (\<lambda>rs. rsReplicas rs \<noteq> 0) [sampleRS ''x'' 1 3 0])) = 3
   \<and> fst (fst (scaleDownOldReplicaSetsForBlueGreen (sampleDeps False)
       (sampleController None None False False False)
       [sampleRS ''x'' 1 3 0, sampleRS ''new'' 2 4 4] [sampleRS ''x'' 1 3 0]
       (sampleRollout 4 [] None) []))
     \<noteq> sum_list (map rsReplicas (filter (\<lambda>rs. rsReplicas rs \<noteq> 0) [sampleRS ''x'' 1 3 0]))"
  by (simp add: scaleDownOldReplicaSetsForBlueGreen_def sampleDeps_def sampleRollout_def
      sampleRS_def GetAvailableReplicaCountForReplicaSets_def)

subsection \<open>The Preview Verification Gate\<close>

text \<open>
  Claim C5 (gate predicate), as amended. \<^verbatim>\<open>reconcileVerifyingPreview\<close> returns true if and
  only if the preview selector name is non-empty, the active selector is present and its
  selector map contains the revision-identifier key, and \<^verbatim>\<open>status.verifyingPreview\<close> is
  present and true. When the preview selector name is empty or the active selector is
  non-nil, it returns false whenever one of these conditions is missing. The function is
  pure: it takes no world and returns none.
\<close>

theorem reconcileVerifyingPreview_gate:
  "(reconcileVerifyingPreview d activeSvc rollout = Inr True)
     = (roPreviewService rollout \<noteq> []
        \<and> (\<exists>svc. activeSvc = Some svc \<and> DefaultRolloutUniqueLabelKey d \<in> dom (svcSelector svc))
        \<and> roVerifyingPreview rollout = Some True)
   \<and> (roPreviewService rollout = [] \<or> activeSvc \<noteq> None \<longrightarrow>
        \<not> (roPreviewService rollout \<noteq> []
           \<and> (\<exists>svc. activeSvc = Some svc
                \<and> DefaultRolloutUniqueLabelKey d \<in> dom (svcSelector svc))
           \<and> roVerifyingPreview rollout = Some True) \<longrightarrow>
        reconcileVerifyingPreview d activeSvc rollout = Inr False)"
  by (auto simp add: reconcileVerifyingPreview_def split: option.splits)

text \<open>
  The gate held (all three conditions), and the gate open because the active selector
  map has no revision key.
\<close>

theorem reconcileVerifyingPreview_gate_witness:
  "reconcileVerifyingPreview (sampleDeps False)
     (Some (sampleService ''active'' [''rollouts-pod-template-hash'' \<mapsto> ''abc'']))
     (sampleRollout 4 ''preview'' (Some True)) = Inr True
   \<and> reconcileVerifyingPreview (sampleDeps False)
     (Some (sampleService ''active'' Map.empty))
     (sampleRollout 4 ''preview'' (Some True)) = Inr False"
  using reconcileVerifyingPreview_gate [of "sampleDeps False"
      "Some (sampleService ''active'' [''rollouts-pod-template-hash'' \<mapsto> ''abc''])"
      "sampleRollout 4 ''preview'' (Some True)"]
    reconcileVerifyingPreview_gate [of "sampleDeps False"
      "Some (sampleService ''active'' Map.empty)"
      "sampleRollout 4 ''preview'' (Some True)"]
  by (simp add: sampleDeps_def sampleService_def sampleRollout_def)

text \<open>
  The claim as stated promises false whenever a condition is missing. With a preview
  selector name and a nil active selector the second condition is missing, and the
  function does not return false: it panics.
\<close>

theorem reconcileVerifyingPreview_gate_counterexample:
  "roPreviewService (sampleRollout 4 ''preview'' (Some True)) \<noteq> []
   \<and> reconcileVerifyingPreview (sampleDeps False) None (sampleRollout 4 ''preview'' (Some True))
       = Inl NilPointerDereference
   \<and> reconcileVerifyingPreview (sampleDeps False) None (sampleRollout 4 ''preview'' (Some True))
       \<noteq> Inr False"
  by (simp add: reconcileVerifyingPreview_def sampleRollout_def)

text \<open>
  Claim C9 (totality precondition of the gate). \<^verbatim>\<open>reconcileVerifyingPreview\<close> panics with
  a nil-pointer dereference exactly when the preview selector name is non-empty and the
  active selector is nil: it is defined on every other input, and on this one it does
  not return false.
\<close>

theorem reconcileVerifyingPreview_panics_iff:
  "(reconcileVerifyingPreview d activeSvc rollout = Inl NilPointerDereference)
     = (roPreviewService rollout \<noteq> [] \<and> activeSvc = None)"
  by (simp add: reconcileVerifyingPreview_def split: option.splits)

subsection \<open>The New Group Scaler\<close>

text \<open>
  Claim C6 (trichotomy of \<^verbatim>\<open>reconcileNewReplicaSet\<close>), as amended. If the new group's
  desired count equals the rollout's desired replica count, the function returns false
  with a nil error and the world untouched. If it exceeds it, the function asks the scale
  collaborator for the rollout's desired count and returns the collaborator's changed
  flag and error. Otherwise it asks the ramp function: when the ramp function returns no
  error, it asks the scale collaborator for the count the ramp function returned and
  returns the collaborator's changed flag and error; when the ramp function returns an
  error, it returns false with that error and the world untouched.
\<close>

theorem reconcileNewReplicaSet_cases:
  "(rsReplicas newRS = GetRolloutReplicasOrDefault d rollout \<longrightarrow>
      reconcileNewReplicaSet d c allRSs newRS rollout w = ((False, None), w))
   \<and> (GetRolloutReplicasOrDefault d rollout <s rsReplicas newRS \<longrightarrow>
      reconcileNewReplicaSet d c allRSs newRS rollout w =
        (case scaleReplicaSetAndRecordEvent c newRS (GetRolloutReplicasOrDefault d rollout) rollout w of
           ((scaled, _, err), w') \<Rightarrow> ((scaled, err), w')))
   \<and> (rsReplicas newRS <s GetRolloutReplicasOrDefault d rollout \<longrightarrow>
      reconcileNewReplicaSet d c allRSs newRS rollout w =
        (case NewRSNewReplicas d rollout allRSs newRS of
           (_, Some err) \<Rightarrow> ((False, Some err), w)
         | (newReplicasCount, None) \<Rightarrow>
             (case scaleReplicaSetAndRecordEvent c newRS newReplicasCount rollout w of
                ((scaled, _, err), w') \<Rightarrow> ((scaled, err), w'))))"
  by (auto simp add: reconcileNewReplicaSet_def Let_def split: prod.splits option.splits)

text \<open>
  The three cases on the sample collaborators: a new group already at the desired count
  2; the spec's over-provisioned scenario (desired replicas 2, new group at 5: scaled to
  2, changed); the spec's fresh rollout (desired replicas 4, new group at 0: the ramp
  function asks for 4).
\<close>

theorem reconcileNewReplicaSet_cases_witness:
  "rsReplicas (sampleRS ''new'' 1 2 2)
     = GetRolloutReplicasOrDefault (sampleDeps False) (sampleRollout 2 [] None)
   \<and> reconcileNewReplicaSet (sampleDeps False) (sampleController None None False False False)
       [sampleRS ''new'' 1 2 2] (sampleRS ''new'' 1 2 2) (sampleRollout 2 [] None) []
     = ((False, None), [])
   \<and> GetRolloutReplicasOrDefault (sampleDeps False) (sampleRollout 2 [] None)
       <s rsReplicas (sampleRS ''new'' 1 5 5)
   \<and> reconcileNewReplicaSet (sampleDeps False) (sampleController None None False False False)
       [sampleRS ''new'' 1 5 5] (sampleRS ''new'' 1 5 5) (sampleRollout 2 [] None) []
     = ((True, None), [(''new'', 2)])
   \<and> rsReplicas (sampleRS ''new'' 1 0 0)
       <s GetRolloutReplicasOrDefault (sampleDeps False) (sampleRollout 4 [] None)
   \<and> reconcileNewReplicaSet (sampleDeps False) (sampleController None None False False False)
       [sampleRS ''new'' 1 0 0] (sampleRS ''new'' 1 0 0) (sampleRollout 4 [] None) []
     = ((True, None), [(''new'', 4)])"
  using
    reconcileNewReplicaSet_cases [of "sampleRS ''new'' 1 2 2" "sampleDeps False"
      "sampleRollout 2 [] None" "sampleController None None False False False"
      "[sampleRS ''new'' 1 2 2]" "[]"]
    reconcileNewReplicaSet_cases [of "sampleRS ''new'' 1 5 5" "sampleDeps False"
      "sampleRollout 2 [] None" "sampleController None None False False False"
      "[sampleRS ''new'' 1 5 5]" "[]"]
    reconcileNewReplicaSet_cases [of "sampleRS ''new'' 1 0 0" "sampleDeps False"
      "sampleRollout 4 [] None" "sampleController None None False False False"
      "[sampleRS ''new'' 1 0 0]" "[]"]
  by (simp add: sampleDeps_def sampleRollout_def sampleRS_def sampleController_def
      word_sless_alt)

text \<open>
  The claim as stated has the ramp function's count applied whenever the new group is
  under-provisioned. When the ramp function returns an error beside its count (new group
  at 0, desired replicas 4), the function makes no scale call and returns false with
  that error.
\<close>

theorem reconcileNewReplicaSet_cases_counterexample:
  "rsReplicas (sampleRS ''new'' 1 0 0)
     <s GetRolloutReplicasOrDefault (sampleDeps False) (sampleRollout 4 [] None)
   \<and> NewRSNewReplicas
        ((sampleDeps False)\<lparr>NewRSNewReplicas := \<lambda>r allRSs newRS.
            (0, Some (CollaboratorError ''no rollout strategy provided''))\<rparr>)
        (sampleRollout 4 [] None) [sampleRS ''new'' 1 0 0] (sampleRS ''new'' 1 0 0)
      = (0, Some (CollaboratorError ''no rollout strategy provided''))
   \<and> reconcileNewReplicaSet
        ((sampleDeps False)\<lparr>NewRSNewReplicas := \<lambda>r allRSs newRS.
            (0, Some (CollaboratorError ''no rollout strategy provided''))\<rparr>)
        (traced (sampleController None None False False False))
        [sampleRS ''new'' 1 0 0] (sampleRS ''new'' 1 0 0) (sampleRollout 4 [] None) ([], [])
      = ((False, Some (CollaboratorError ''no rollout strategy provided'')), ([], []))"
  by (simp add: reconcileNewReplicaSet_def sampleDeps_def sampleRollout_def sampleRS_def
      word_sless_alt)

subsection \<open>The Unhealthy Eviction Step\<close>

text \<open>
  Claim C4 (monotonic eviction). Run with logging collaborators, the calls of
  \<^verbatim>\<open>cleanupUnhealthyReplicas\<close> are, oldest first, one scale request for each group of an
  initial stretch of the old groups whose desired count is neither zero nor equal to
  their available count (the other groups are skipped); each request asks for the
  group's available count, which does not exceed its prior desired count; and the world
  the step returns is the world obtained by sending exactly these requests, in this
  order, to the scale collaborator. When the step returns without error the stretch is
  all such groups: every one of them has been asked to take its available count, the
  returned count is the sum of desired minus available over them, and the returned slice
  is the sorted slice with every skipped group unchanged and every other group replaced
  by the object the scale collaborator returned for its available count. If some old
  group has a nonzero desired count below its available count, the step returns an error
  and a nil slice. One turn of the loop, from any state: a group with desired count zero
  or equal to its available count is kept as it is and the loop goes on; a group with a
  nonzero desired count below its available count ends the loop with the invalid-request
  error, a zero count and the world as it was (the group is not applied); any other group
  is sent to the scale collaborator with its available count, and the loop goes on from
  the world and with the object the collaborator returned, or ends with its error.
\<close>

theorem cleanupUnhealthyReplicas_eviction:
  "(\<exists>ys zs.
       filter (\<lambda>rs. rsReplicas rs \<noteq> 0 \<and> rsReplicas rs \<noteq> rsAvailableReplicas rs)
         (sortByCreationTimestamp oldRSs) = ys @ zs
     \<and> snd (snd (cleanupUnhealthyReplicas (traced c) oldRSs rollout (w, [])))
         = map (\<lambda>rs. CallScale rs (rsAvailableReplicas rs)) ys
     \<and> (\<forall>rs \<in> set ys. rsAvailableReplicas rs \<le>s rsReplicas rs)
     \<and> snd (cleanupUnhealthyReplicas c oldRSs rollout w)
         = replayScales c rollout (map (\<lambda>rs. (rs, rsAvailableReplicas rs)) ys) w)
   \<and> (snd (snd (fst (cleanupUnhealthyReplicas c oldRSs rollout w))) = None \<longrightarrow>
        snd (snd (cleanupUnhealthyReplicas (traced c) oldRSs rollout (w, [])))
          = map (\<lambda>rs. CallScale rs (rsAvailableReplicas rs))
              (filter (\<lambda>rs. rsReplicas rs \<noteq> 0 \<and> rsReplicas rs \<noteq> rsAvailableReplicas rs)
                 (sortByCreationTimestamp oldRSs))
        \<and> snd (cleanupUnhealthyReplicas c oldRSs rollout w)
          = replayScales c rollout
              (map (\<lambda>rs. (rs, rsAvailableReplicas rs))
                 (filter (\<lambda>rs. rsReplicas rs \<noteq> 0 \<and> rsReplicas rs \<noteq> rsAvailableReplicas rs)
                    (sortByCreationTimestamp oldRSs))) w
        \<and> fst (snd (fst (cleanupUnhealthyReplicas c oldRSs rollout w)))
          = sum_list (map (\<lambda>rs. rsReplicas rs - rsAvailableReplicas rs)
              (filter (\<lambda>rs. rsReplicas rs \<noteq> 0 \<and> rsReplicas rs \<noteq> rsAvailableReplicas rs)
                 oldRSs))
        \<and> list_all2 (\<lambda>old new.
            if rsReplicas old = 0 \<or> rsReplicas old = rsAvailableReplicas old then new = old
            else \<exists>w0. new = fst (snd (fst
                   (scaleReplicaSetAndRecordEvent c old (rsAvailableReplicas old) rollout w0))))
          (sortByCreationTimestamp oldRSs)
          (fst (fst (cleanupUnhealthyReplicas c oldRSs rollout w))))
   \<and> ((\<exists>rs \<in> set oldRSs. rsReplicas rs \<noteq> 0 \<and> rsReplicas rs <s rsAvailableReplicas rs) \<longrightarrow>
        fst (fst (cleanupUnhealthyReplicas c oldRSs rollout w)) = []
        \<and> snd (snd (fst (cleanupUnhealthyReplicas c oldRSs rollout w))) \<noteq> None)
   \<and> (rsReplicas g = 0 \<or> rsReplicas g = rsAvailableReplicas g \<longrightarrow>
        cleanupLoop c rollout visited (g # rest) evicted w
          = cleanupLoop c rollout (visited @ [g]) rest evicted w)
   \<and> (rsReplicas g \<noteq> 0 \<and> rsReplicas g <s rsAvailableReplicas g \<longrightarrow>
        cleanupLoop c rollout visited (g # rest) evicted w
          = (([], 0, Some (InvalidScaleDownRequest (rsNamespace g) (rsName g) (rsReplicas g)
                             (rsAvailableReplicas g))), w))
   \<and> (rsReplicas g \<noteq> 0 \<and> rsAvailableReplicas g <s rsReplicas g \<longrightarrow>
        cleanupLoop c rollout visited (g # rest) evicted w
          = (case scaleReplicaSetAndRecordEvent c g (rsAvailableReplicas g) rollout w of
               ((_, _, Some err), w') \<Rightarrow> (([], evicted, Some err), w')
             | ((_, updatedOldRS, None), w') \<Rightarrow>
                 cleanupLoop c rollout (visited @ [updatedOldRS]) rest
                   (evicted + (rsReplicas g - rsAvailableReplicas g)) w'))"
proof -
  let ?needs = "\<lambda>rs. rsReplicas rs \<noteq> 0 \<and> rsReplicas rs \<noteq> rsAvailableReplicas rs"
  let ?mk = "\<lambda>rs. CallScale rs (rsAvailableReplicas rs)"
  let ?rq = "\<lambda>rs. (rs, rsAvailableReplicas rs)"
  let ?sorted = "sortByCreationTimestamp oldRSs"
  obtain ys zs where
    split: "filter ?needs ?sorted = ys @ zs"
    and valid: "\<forall>rs \<in> set ys. \<not> rsReplicas rs <s rsAvailableReplicas rs"
    and log: "snd (snd (cleanupLoop (traced c) rollout [] ?sorted 0 (w, []))) = [] @ map ?mk ys"
    and world: "snd (cleanupLoop c rollout [] ?sorted 0 w) = replayScales c rollout (map ?rq ys) w"
    using cleanupLoop_replay [of ?sorted c rollout "[]" 0 w "[]"]
    by blast
  from valid have le: "\<forall>rs \<in> set ys. rsAvailableReplicas rs \<le>s rsReplicas rs"
    by (simp add: signed.not_less)
  from split log le world have requests: "\<exists>ys zs.
       filter ?needs ?sorted = ys @ zs
     \<and> snd (snd (cleanupUnhealthyReplicas (traced c) oldRSs rollout (w, []))) = map ?mk ys
     \<and> (\<forall>rs \<in> set ys. rsAvailableReplicas rs \<le>s rsReplicas rs)
     \<and> snd (cleanupUnhealthyReplicas c oldRSs rollout w) = replayScales c rollout (map ?rq ys) w"
    unfolding cleanupUnhealthyReplicas_def by auto
  have complete: "snd (snd (cleanupUnhealthyReplicas (traced c) oldRSs rollout (w, [])))
      = map ?mk (filter ?needs ?sorted)"
    if ok: "snd (snd (fst (cleanupUnhealthyReplicas c oldRSs rollout w))) = None"
  proof -
    from ok cleanupUnhealthyReplicas_traced [of c oldRSs rollout w "[]"]
    have "snd (snd (fst (cleanupLoop (traced c) rollout [] ?sorted 0 (w, [])))) = None"
      by (simp add: cleanupUnhealthyReplicas_def)
    from cleanupLoop_traced_complete [OF this] show ?thesis
      by (simp add: cleanupUnhealthyReplicas_def)
  qed
  have replay: "snd (cleanupUnhealthyReplicas c oldRSs rollout w)
      = replayScales c rollout (map ?rq (filter ?needs ?sorted)) w"
    if ok: "snd (snd (fst (cleanupUnhealthyReplicas c oldRSs rollout w))) = None"
  proof -
    from complete [OF ok] log have "map ?mk ys = map ?mk (filter ?needs ?sorted)"
      by (simp add: cleanupUnhealthyReplicas_def)
    moreover have "inj ?mk"
      by (rule injI) simp
    ultimately have "ys = filter ?needs ?sorted"
      by (rule map_injective)
    with world show ?thesis
      by (simp add: cleanupUnhealthyReplicas_def)
  qed
  have count: "fst (snd (fst (cleanupUnhealthyReplicas c oldRSs rollout w)))
      = sum_list (map (\<lambda>rs. rsReplicas rs - rsAvailableReplicas rs) (filter ?needs oldRSs))"
    if ok: "snd (snd (fst (cleanupUnhealthyReplicas c oldRSs rollout w))) = None"
  proof -
    from ok have "snd (snd (fst (cleanupLoop c rollout [] ?sorted 0 w))) = None"
      by (simp add: cleanupUnhealthyReplicas_def)
    from cleanupLoop_count [OF this] show ?thesis
      by (simp add: cleanupUnhealthyReplicas_def sum_list_map_filter_sortByCreationTimestamp)
  qed
  have slice: "list_all2 (\<lambda>old new.
        if rsReplicas old = 0 \<or> rsReplicas old = rsAvailableReplicas old then new = old
        else \<exists>w0. new = fst (snd (fst
               (scaleReplicaSetAndRecordEvent c old (rsAvailableReplicas old) rollout w0))))
      ?sorted (fst (fst (cleanupUnhealthyReplicas c oldRSs rollout w)))"
    if ok: "snd (snd (fst (cleanupUnhealthyReplicas c oldRSs rollout w))) = None"
  proof -
    from ok have "snd (snd (fst (cleanupLoop c rollout [] ?sorted 0 w))) = None"
      by (simp add: cleanupUnhealthyReplicas_def)
    from cleanupLoop_result [OF this] show ?thesis
      by (auto simp add: cleanupUnhealthyReplicas_def)
  qed
  have invalid: "fst (fst (cleanupUnhealthyReplicas c oldRSs rollout w)) = []
      \<and> snd (snd (fst (cleanupUnhealthyReplicas c oldRSs rollout w))) \<noteq> None"
    if "\<exists>rs \<in> set oldRSs. rsReplicas rs \<noteq> 0 \<and> rsReplicas rs <s rsAvailableReplicas rs"
  proof -
    from that have inv: "\<exists>rs \<in> set ?sorted.
        rsReplicas rs \<noteq> 0 \<and> rsReplicas rs <s rsAvailableReplicas rs"
      by (simp add: sortByCreationTimestamp_def)
    from cleanupLoop_invalid [OF inv, of c rollout "[]" 0 w] show ?thesis
      by (simp add: cleanupUnhealthyReplicas_def)
  qed
  have skip: "cleanupLoop c rollout visited (g # rest) evicted w
      = cleanupLoop c rollout (visited @ [g]) rest evicted w"
    if "rsReplicas g = 0 \<or> rsReplicas g = rsAvailableReplicas g"
    using that by (rule cleanupLoop_skip)
  have fatal: "cleanupLoop c rollout visited (g # rest) evicted w
      = (([], 0, Some (InvalidScaleDownRequest (rsNamespace g) (rsName g) (rsReplicas g)
                         (rsAvailableReplicas g))), w)"
    if "rsReplicas g \<noteq> 0 \<and> rsReplicas g <s rsAvailableReplicas g"
  proof -
    from that have "rsReplicas g \<noteq> 0" and "rsReplicas g <s rsAvailableReplicas g" by blast+
    then show ?thesis by (rule cleanupLoop_fatal)
  qed
  have evict: "cleanupLoop c rollout visited (g # rest) evicted w
      = (case scaleReplicaSetAndRecordEvent c g (rsAvailableReplicas g) rollout w of
           ((_, _, Some err), w') \<Rightarrow> (([], evicted, Some err), w')
         | ((_, updatedOldRS, None), w') \<Rightarrow>
             cleanupLoop c rollout (visited @ [updatedOldRS]) rest
               (evicted + (rsReplicas g - rsAvailableReplicas g)) w')"
    if "rsReplicas g \<noteq> 0 \<and> rsAvailableReplicas g <s rsReplicas g"
  proof -
    from that have nz: "rsReplicas g \<noteq> 0" and gt: "rsAvailableReplicas g <s rsReplicas g"
      by blast+
    from gt have ne: "rsReplicas g \<noteq> rsAvailableReplicas g" by auto
    from gt have ge: "\<not> rsReplicas g <s rsAvailableReplicas g"
      by (simp add: signed.less_asym)
    from nz ne ge show ?thesis by (rule cleanupLoop_evict)
  qed
  show ?thesis
    apply (intro conjI impI)
            apply (rule requests)
           apply (erule complete)
          apply (erule replay)
         apply (erule count)
        apply (erule slice)
       apply (drule invalid, erule conjunct1)
      apply (drule invalid, erule conjunct2)
     apply (erule skip)
    apply (erule fatal)
    apply (erule evict)
    done
qed

text \<open>
  Groups A (created at 1, desired 3, available 1), B (created at 2, desired 2, available
  1) and C (created at 3, desired 2, available 2). The step asks for A at 1, then for B
  at 1, and leaves C alone; both requests reach the store, and 3 units are evicted. A
  group G with desired 1 and available 3 makes the step fail.
\<close>

theorem cleanupUnhealthyReplicas_eviction_witness:
  "cleanupUnhealthyReplicas (traced (sampleController None None False False False))
       [sampleRS ''c'' 3 2 2, sampleRS ''b'' 2 2 1, sampleRS ''a'' 1 3 1]
       (sampleRollout 4 [] None) ([], [])
     = (([sampleRS ''a'' 1 1 1, sampleRS ''b'' 2 1 1, sampleRS ''c'' 3 2 2], 3, None),
        ([(''a'', 1), (''b'', 1)],
         [CallScale (sampleRS ''a'' 1 3 1) 1, CallScale (sampleRS ''b'' 2 2 1) 1]))
   \<and> snd (snd (fst (cleanupUnhealthyReplicas (sampleController None None False False False)
       [sampleRS ''c'' 3 2 2, sampleRS ''b'' 2 2 1, sampleRS ''a'' 1 3 1]
       (sampleRollout 4 [] None) []))) = None
   \<and> replayScales (sampleController None None False False False) (sampleRollout 4 [] None)
       [(sampleRS ''a'' 1 3 1, 1), (sampleRS ''b'' 2 2 1, 1)] []
     = [(''a'', 1), (''b'', 1)]
   \<and> rsAvailableReplicas (sampleRS ''a'' 1 3 1) \<le>s rsReplicas (sampleRS ''a'' 1 3 1)
   \<and> rsAvailableReplicas (sampleRS ''b'' 2 2 1) \<le>s rsReplicas (sampleRS ''b'' 2 2 1)
   \<and> rsReplicas (sampleRS ''c'' 3 2 2) = rsAvailableReplicas (sampleRS ''c'' 3 2 2)
   \<and> rsReplicas (sampleRS ''b'' 2 2 1) \<noteq> 0
   \<and> rsAvailableReplicas (sampleRS ''b'' 2 2 1) <s rsReplicas (sampleRS ''b'' 2 2 1)
   \<and> cleanupLoop (sampleController None None False False False) (sampleRollout 4 [] None)
       [sampleRS ''a'' 1 1 1] [sampleRS ''b'' 2 2 1, sampleRS ''c'' 3 2 2] 2 [(''a'', 1)]
     = (([sampleRS ''a'' 1 1 1, sampleRS ''b'' 2 1 1, sampleRS ''c'' 3 2 2], 3, None),
        [(''a'', 1), (''b'', 1)])
   \<and> rsReplicas (sampleRS ''g'' 1 1 3) \<noteq> 0
   \<and> rsReplicas (sampleRS ''g'' 1 1 3) <s rsAvailableReplicas (sampleRS ''g'' 1 1 3)
   \<and> cleanupUnhealthyReplicas (sampleController None None False False False)
       [sampleRS ''g'' 1 1 3] (sampleRollout 4 [] None) []
     = (([], 0, Some (InvalidScaleDownRequest ''default'' ''g'' 1 3)), [])"
  using
    cleanupUnhealthyReplicas_eviction [of
      "[sampleRS ''c'' 3 2 2, sampleRS ''b'' 2 2 1, sampleRS ''a'' 1 3 1]"
      "sampleController None None False False False" "sampleRollout 4 [] None" "[]"
      "sampleRS ''c'' 3 2 2" "[sampleRS ''a'' 1 1 1, sampleRS ''b'' 2 1 1]" "[]" 3]
    cleanupUnhealthyReplicas_eviction [of
      "[sampleRS ''c'' 3 2 2, sampleRS ''b'' 2 2 1, sampleRS ''a'' 1 3 1]"
      "sampleController None None False False False" "sampleRollout 4 [] None" "[(''a'', 1)]"
      "sampleRS ''b'' 2 2 1" "[sampleRS ''a'' 1 1 1]" "[sampleRS ''c'' 3 2 2]" 2]
    cleanupUnhealthyReplicas_eviction [of "[sampleRS ''g'' 1 1 3]"
      "sampleController None None False False False" "sampleRollout 4 [] None" "[]"
      "sampleRS ''g'' 1 1 3" "[]" "[]" 0]
  by (simp add: cleanupUnhealthyReplicas_def sampleRollout_def sampleRS_def
      sortByCreationTimestamp_def traced_def sampleController_def word_sless_alt word_sle_eq)

subsection \<open>Ordering of the old-group mutations\<close>

text \<open>
  Claim C8 (oldest first). For old groups with distinct creation timestamps, the scale
  calls of \<^verbatim>\<open>cleanupUnhealthyReplicas\<close> and the scale calls of
  \<^verbatim>\<open>scaleDownOldReplicaSetsForBlueGreen\<close>, in the order they are made, have strictly
  increasing creation timestamps of their targets.
\<close>

theorem old_groups_oldest_first:
  assumes distinct: "distinct (map rsCreationTimestamp oldRSs)"
  shows "sorted_wrt (<) (map (\<lambda>(rs, n). rsCreationTimestamp rs)
           (scaleCalls (snd (snd (cleanupUnhealthyReplicas (traced c) oldRSs rollout (w, []))))))
       \<and> sorted_wrt (<) (map (\<lambda>(rs, n). rsCreationTimestamp rs)
           (scaleCalls (snd (snd
              (scaleDownOldReplicaSetsForBlueGreen d (traced c) allRSs oldRSs rollout (w, []))))))"
proof
  let ?older = "\<lambda>a b. rsCreationTimestamp a < rsCreationTimestamp b"
  have sorted: "sorted_wrt ?older (sortByCreationTimestamp oldRSs)"
    using distinct by (rule sortByCreationTimestamp_strict)
  have prefix: "sorted_wrt ?older ys"
    if "filter P (sortByCreationTimestamp oldRSs) = ys @ zs" for P ys zs
  proof -
    from sorted have "sorted_wrt ?older (filter P (sortByCreationTimestamp oldRSs))"
      by (rule sorted_wrt_filter)
    with that show ?thesis by (simp add: sorted_wrt_append)
  qed
  let ?needs = "\<lambda>rs. rsReplicas rs \<noteq> 0 \<and> rsReplicas rs \<noteq> rsAvailableReplicas rs"
  obtain ys zs where
    "filter ?needs (sortByCreationTimestamp oldRSs) = ys @ zs"
    "snd (snd (cleanupLoop (traced c) rollout [] (sortByCreationTimestamp oldRSs) 0 (w, [])))
       = [] @ map (\<lambda>rs. CallScale rs (rsAvailableReplicas rs)) ys"
    using cleanupLoop_traced_log [of "sortByCreationTimestamp oldRSs" c rollout "[]" 0 w "[]"]
    by blast
  then show "sorted_wrt (<) (map (\<lambda>(rs, n). rsCreationTimestamp rs)
           (scaleCalls (snd (snd (cleanupUnhealthyReplicas (traced c) oldRSs rollout (w, []))))))"
    using prefix [of ?needs ys zs]
    by (simp add: cleanupUnhealthyReplicas_def scaleCalls_map_CallScale sorted_wrt_map comp_def)
  show "sorted_wrt (<) (map (\<lambda>(rs, n). rsCreationTimestamp rs)
           (scaleCalls (snd (snd
              (scaleDownOldReplicaSetsForBlueGreen d (traced c) allRSs oldRSs rollout (w, []))))))"
  proof (cases "GetAvailableReplicaCountForReplicaSets allRSs \<le>s GetRolloutReplicasOrDefault d rollout")
    case True
    then show ?thesis
      by (simp add: scaleDownOldReplicaSetsForBlueGreen_def Let_def)
  next
    case False
    obtain ys zs where
      "filter (\<lambda>rs. rsReplicas rs \<noteq> 0) (sortByCreationTimestamp oldRSs) = ys @ zs"
      "snd (snd (scaleDownLoop (traced c) rollout (sortByCreationTimestamp oldRSs) 0 (w, [])))
         = [] @ map (\<lambda>rs. CallScale rs 0) ys"
      using scaleDownLoop_traced_log [of "sortByCreationTimestamp oldRSs" c rollout 0 w "[]"]
      by blast
    with False show ?thesis
      using prefix [of "\<lambda>rs. rsReplicas rs \<noteq> 0" ys zs]
      by (simp add: scaleDownOldReplicaSetsForBlueGreen_def Let_def scaleCalls_map_CallScale
          sorted_wrt_map comp_def)
  qed
qed

text \<open>
  Two old groups handed over newest first: both steps reach the older group a first.
\<close>

theorem old_groups_oldest_first_witness:
  "distinct (map rsCreationTimestamp [sampleRS ''b'' 2 2 1, sampleRS ''a'' 1 3 1])
   \<and> scaleCalls (snd (snd (cleanupUnhealthyReplicas
        (traced (sampleController None None False False False))
        [sampleRS ''b'' 2 2 1, sampleRS ''a'' 1 3 1] (sampleRollout 4 [] None) ([], []))))
     = [(sampleRS ''a'' 1 3 1, 1), (sampleRS ''b'' 2 2 1, 1)]
   \<and> scaleCalls (snd (snd (scaleDownOldReplicaSetsForBlueGreen (sampleDeps False)
        (traced (sampleController None None False False False))
        [sampleRS ''b'' 2 2 1, sampleRS ''a'' 1 3 1, sampleRS ''new'' 3 4 4]
        [sampleRS ''b'' 2 2 1, sampleRS ''a'' 1 3 1] (sampleRollout 4 [] None) ([], []))))
     = [(sampleRS ''a'' 1 3 1, 0), (sampleRS ''b'' 2 2 1, 0)]
   \<and> sorted_wrt (<) (map (\<lambda>(rs, n). rsCreationTimestamp rs)
        [(sampleRS ''a'' 1 3 1, 0 :: int32), (sampleRS ''b'' 2 2 1, 0)])"
  using
    old_groups_oldest_first [of "[sampleRS ''b'' 2 2 1, sampleRS ''a'' 1 3 1]"
      "sampleController None None False False False" "sampleRollout 4 [] None" "[]"
      "sampleDeps False" "[sampleRS ''b'' 2 2 1, sampleRS ''a'' 1 3 1, sampleRS ''new'' 3 4 4]"]
  by (simp add: cleanupUnhealthyReplicas_def scaleDownOldReplicaSetsForBlueGreen_def
      sampleDeps_def sampleRollout_def sampleRS_def sortByCreationTimestamp_def traced_def
      sampleController_def GetAvailableReplicaCountForReplicaSets_def word_sless_alt word_sle_eq)

subsection \<open>The Orchestrator\<close>

text \<open>
  Claim C3 (single mutating step). With collaborators that keep the contract
  \<open>reportsChanges\<close>, every pass follows one branch of this tree. An error of the revision
  sync or of the selector lookup ends the pass before any step. An error of ScaleNewUp
  ends the pass there; if ScaleNewUp reports a change, the pass is exactly the status
  sync in the world ScaleNewUp left; if it reports none, it left the world as it was.
  With a preview selector, an error of PreviewCutover ends the pass there; if it reports
  a switch, the pass is exactly the status sync in the world it left; if it reports
  none, it left the world as it was, and then a panic of the gate ends the pass and a
  held gate makes the pass the status sync. Once the pass is through the preview block,
  an error of ActiveCutover ends the pass there; if it reports a switch, the pass is
  exactly the status sync in the world it left; if it reports none, the world is still
  the one the lookup left. Then, if ScaleOldDown reports a change, the pass is exactly
  the status sync in the world it left; if it reports none, the pass is the cleanup
  (when the rollout is complete) followed by the status sync, which is missed only when
  the cleanup fails. So on every branch at most one of the four steps has changed the
  world, no step runs after the one that reported, and the status sync is reached
  whenever no earlier step stopped the pass.
\<close>

theorem rolloutBlueGreen_single_mutating_step:
  assumes contract: "reportsChanges c"
  shows
    "(getAllReplicaSetsAndSyncRevision c r rsList True w = ((newRS, oldRSs, Some err), w1) \<longrightarrow>
        rolloutBlueGreen d c r rsList w = (Inr (Some err), w1))
     \<and> (getAllReplicaSetsAndSyncRevision c r rsList True w = ((newRS, oldRSs, None), w1) \<longrightarrow>
        (getPreviewAndActiveServices c r w1 = ((previewSvc, activeSvc, Some err), w2) \<longrightarrow>
           rolloutBlueGreen d c r rsList w = (Inr (Some err), w2))
      \<and> (getPreviewAndActiveServices c r w1 = ((previewSvc, activeSvc, None), w2) \<longrightarrow>
        (reconcileNewReplicaSet d c (oldRSs @ [newRS]) newRS r w2 = ((scaledUp, Some err), w3) \<longrightarrow>
           rolloutBlueGreen d c r rsList w = (Inr (Some err), w3))
      \<and> (reconcileNewReplicaSet d c (oldRSs @ [newRS]) newRS r w2 = ((True, None), w3) \<longrightarrow>
           rolloutBlueGreen d c r rsList w
             = syncAndReturn c (oldRSs @ [newRS]) newRS previewSvc activeSvc r w3)
      \<and> (reconcileNewReplicaSet d c (oldRSs @ [newRS]) newRS r w2 = ((False, None), w3) \<longrightarrow>
           w3 = w2
         \<and> (previewSvc \<noteq> None \<longrightarrow>
             (reconcilePreviewService c r newRS previewSvc activeSvc w3
                = ((switchPreview, Some err), w4) \<longrightarrow>
                rolloutBlueGreen d c r rsList w = (Inr (Some err), w4))
           \<and> (reconcilePreviewService c r newRS previewSvc activeSvc w3 = ((True, None), w4) \<longrightarrow>
                rolloutBlueGreen d c r rsList w
                  = syncAndReturn c (oldRSs @ [newRS]) newRS previewSvc activeSvc r w4)
           \<and> (reconcilePreviewService c r newRS previewSvc activeSvc w3 = ((False, None), w4) \<longrightarrow>
                w4 = w3
              \<and> (reconcileVerifyingPreview d activeSvc r = Inl p \<longrightarrow>
                   rolloutBlueGreen d c r rsList w = (Inl p, w4))
              \<and> (reconcileVerifyingPreview d activeSvc r = Inr True \<longrightarrow>
                   rolloutBlueGreen d c r rsList w
                     = syncAndReturn c (oldRSs @ [newRS]) newRS previewSvc activeSvc r w4)))
         \<and> (passedPreviewBlock d c r newRS previewSvc activeSvc w3 w4 \<longrightarrow>
             (reconcileActiveService c r newRS previewSvc activeSvc w4
                = ((switchActive, Some err), w5) \<longrightarrow>
                rolloutBlueGreen d c r rsList w = (Inr (Some err), w5))
           \<and> (reconcileActiveService c r newRS previewSvc activeSvc w4 = ((True, None), w5) \<longrightarrow>
                rolloutBlueGreen d c r rsList w
                  = syncAndReturn c (oldRSs @ [newRS]) newRS previewSvc activeSvc r w5)
           \<and> (reconcileActiveService c r newRS previewSvc activeSvc w4 = ((False, None), w5) \<longrightarrow>
                w5 = w2
              \<and> (reconcileOldReplicaSets d c (oldRSs @ [newRS])
                    (FilterActiveReplicaSets d oldRSs) newRS r w5 = ((True, e), w6) \<longrightarrow>
                   rolloutBlueGreen d c r rsList w
                     = syncAndReturn c (oldRSs @ [newRS]) newRS previewSvc activeSvc r w6)
              \<and> (reconcileOldReplicaSets d c (oldRSs @ [newRS])
                    (FilterActiveReplicaSets d oldRSs) newRS r w5 = ((False, e), w6) \<longrightarrow>
                   rolloutBlueGreen d c r rsList w
                     = (if RolloutComplete d r then
                          (case cleanupRollouts c oldRSs r w6 of
                             (Some err, w7) \<Rightarrow> (Inr (Some err), w7)
                           | (None, w7) \<Rightarrow>
                               syncAndReturn c (oldRSs @ [newRS]) newRS previewSvc activeSvc r w7)
                        else
                          syncAndReturn c (oldRSs @ [newRS]) newRS previewSvc activeSvc r w6)))))))"
proof -
  let ?pass = "rolloutBlueGreen d c r rsList w"
  let ?allRSs = "oldRSs @ [newRS]"
  let ?sync = "syncAndReturn c ?allRSs newRS previewSvc activeSvc r"
  let ?tail = "rolloutBlueGreenTail d c r ?allRSs newRS oldRSs previewSvc activeSvc"
  let ?rev = "\<lambda>e. getAllReplicaSetsAndSyncRevision c r rsList True w = ((newRS, oldRSs, e), w1)"
  let ?svc = "\<lambda>e. getPreviewAndActiveServices c r w1 = ((previewSvc, activeSvc, e), w2)"
  let ?up = "\<lambda>res. reconcileNewReplicaSet d c ?allRSs newRS r w2 = (res, w3)"
  let ?pre = "\<lambda>res. reconcilePreviewService c r newRS previewSvc activeSvc w3 = (res, w4)"
  let ?act = "\<lambda>res. reconcileActiveService c r newRS previewSvc activeSvc w4 = (res, w5)"
  let ?old = "\<lambda>res. reconcileOldReplicaSets d c ?allRSs (FilterActiveReplicaSets d oldRSs)
                 newRS r w5 = (res, w6)"
  let ?passed = "passedPreviewBlock d c r newRS previewSvc activeSvc w3 w4"
  note defs = rolloutBlueGreen_def Let_def
  have e0: "?pass = (Inr (Some err), w1)" if "?rev (Some err)"
    using that by (simp add: defs)
  have e0': "?pass = (Inr (Some err), w2)" if "?rev None" "?svc (Some err)"
    using that by (simp add: defs)
  have e1: "?pass = (Inr (Some err), w3)" if "?rev None" "?svc None" "?up (scaledUp, Some err)"
    using that by (simp add: defs)
  have s1: "?pass = ?sync w3" if "?rev None" "?svc None" "?up (True, None)"
    using that by (simp add: defs)
  have u1: "w3 = w2" if "?up (False, None)"
    using that contract by (rule reconcileNewReplicaSet_unchanged [rotated])
  have e2: "?pass = (Inr (Some err), w4)"
    if "?rev None" "?svc None" "?up (False, None)" "previewSvc \<noteq> None"
      "?pre (switchPreview, Some err)"
    using that by (simp add: defs)
  have s2: "?pass = ?sync w4"
    if "?rev None" "?svc None" "?up (False, None)" "previewSvc \<noteq> None" "?pre (True, None)"
    using that by (simp add: defs)
  have u2: "w4 = w3" if "?pre (False, None)"
    using that contract by (rule reconcilePreviewService_unchanged [rotated])
  have p2: "?pass = (Inl p, w4)"
    if "?rev None" "?svc None" "?up (False, None)" "previewSvc \<noteq> None" "?pre (False, None)"
      "reconcileVerifyingPreview d activeSvc r = Inl p"
    using that by (simp add: defs)
  have g2: "?pass = ?sync w4"
    if "?rev None" "?svc None" "?up (False, None)" "previewSvc \<noteq> None" "?pre (False, None)"
      "reconcileVerifyingPreview d activeSvc r = Inr True"
    using that by (simp add: defs)
  have tail: "?pass = ?tail w4" if "?rev None" "?svc None" "?up (False, None)" ?passed
  proof (cases "previewSvc = None")
    case True
    with that show ?thesis by (simp add: defs passedPreviewBlock_def)
  next
    case False
    with that(4) have "?pre (False, None)" "reconcileVerifyingPreview d activeSvc r = Inr False"
      by (simp_all add: passedPreviewBlock_def)
    with False that(1-3) show ?thesis by (simp add: defs)
  qed
  have u23: "w4 = w2" if "?up (False, None)" ?passed
  proof (cases "previewSvc = None")
    case True
    with that u1 [OF that(1)] show ?thesis by (simp add: passedPreviewBlock_def)
  next
    case False
    with that(2) have "?pre (False, None)" by (simp add: passedPreviewBlock_def)
    from u2 [OF this] u1 [OF that(1)] show ?thesis by simp
  qed
  have e3: "?pass = (Inr (Some err), w5)"
    if "?rev None" "?svc None" "?up (False, None)" ?passed "?act (switchActive, Some err)"
    using that(5) tail [OF that(1-4)] by (simp add: rolloutBlueGreenTail_def)
  have s3: "?pass = ?sync w5"
    if "?rev None" "?svc None" "?up (False, None)" ?passed "?act (True, None)"
    using that(5) tail [OF that(1-4)] by (simp add: rolloutBlueGreenTail_def)
  have u3: "w5 = w2" if "?up (False, None)" ?passed "?act (False, None)"
  proof -
    from that(3) contract have "w5 = w4" by (rule reconcileActiveService_unchanged [rotated])
    with u23 [OF that(1,2)] show ?thesis by simp
  qed
  have s4: "?pass = ?sync w6"
    if "?rev None" "?svc None" "?up (False, None)" ?passed "?act (False, None)" "?old (True, e)"
  proof -
    from that(6) have "e = None" by (rule reconcileOldReplicaSets_result)
    with that(5,6) tail [OF that(1-4)] show ?thesis by (simp add: rolloutBlueGreenTail_def)
  qed
  have s5: "?pass = (if RolloutComplete d r then
                          (case cleanupRollouts c oldRSs r w6 of
                             (Some err, w7) \<Rightarrow> (Inr (Some err), w7)
                           | (None, w7) \<Rightarrow> ?sync w7)
                        else ?sync w6)"
    if "?rev None" "?svc None" "?up (False, None)" ?passed "?act (False, None)" "?old (False, e)"
  proof -
    from that(6) have "e = None" by (rule reconcileOldReplicaSets_result)
    with that(5,6) tail [OF that(1-4)] show ?thesis by (simp add: rolloutBlueGreenTail_def)
  qed
  show ?thesis
    by (intro conjI impI)
      (erule (5) e0 e0' e1 s1 e2 s2 p2 g2 e3 s3 s4 s5
        | erule (4) e0 e0' e1 s1 e2 s2 p2 g2 e3 s3 s4 s5
        | erule (3) e0 e0' e1 s1 e2 s2 p2 g2 e3 s3 s4 s5
        | erule (2) e0 e0' e1 s1 e2 s2 p2 g2 e3 s3 u3 s4 s5
        | erule (1) e0 e0' e1 s1 e2 s2 p2 g2 e3 s3 s4 s5
        | erule e0 u1 u2)+
qed

text \<open>
  Two passes on the sample collaborators, old group x and new group both at the desired
  4 replicas, no preview selector. When the active cutover switches, the pass is the
  cutover and the status sync. When it does not, ScaleOldDown scales x to zero and the
  pass ends with the status sync, without cleanup.
\<close>

theorem rolloutBlueGreen_single_mutating_step_witness:
  "reportsChanges (sampleController None (Some (sampleService ''active'' Map.empty)) False True False)
   \<and> reconcileActiveService
        (sampleController None (Some (sampleService ''active'' Map.empty)) False True False)
        (sampleRollout 4 [] None) (sampleRS ''new'' 2 4 4) None
        (Some (sampleService ''active'' Map.empty)) []
      = ((True, None), [(''active'', 0)])
   \<and> rolloutBlueGreen (sampleDeps True)
        (sampleController None (Some (sampleService ''active'' Map.empty)) False True False)
        (sampleRollout 4 [] None) [sampleRS ''x'' 1 4 4, sampleRS ''new'' 2 4 4] []
      = (Inr None, [(''active'', 0), (''status'', 0)])
   \<and> reconcileOldReplicaSets (sampleDeps True)
        (sampleController None (Some (sampleService ''active'' Map.empty)) False False False)
        [sampleRS ''x'' 1 4 4, sampleRS ''new'' 2 4 4]
        (FilterActiveReplicaSets (sampleDeps True) [sampleRS ''x'' 1 4 4])
        (sampleRS ''new'' 2 4 4) (sampleRollout 4 [] None) []
      = ((True, None), [(''x'', 0)])
   \<and> rolloutBlueGreen (sampleDeps True)
        (sampleController None (Some (sampleService ''active'' Map.empty)) False False False)
        (sampleRollout 4 [] None) [sampleRS ''x'' 1 4 4, sampleRS ''new'' 2 4 4] []
      = (Inr None, [(''x'', 0), (''status'', 0)])"
proof -
  let ?a = "Some (sampleService ''active'' Map.empty)"
  let ?r = "sampleRollout 4 [] None"
  let ?x = "sampleRS ''x'' 1 4 4"
  let ?n = "sampleRS ''new'' 2 4 4"
  let ?d = "sampleDeps True"
  note defs = sampleController_def sampleDeps_def sampleRollout_def sampleRS_def
    word_sless_alt word_sle_eq
  have contract: "reportsChanges (sampleController None ?a False sw False)" for sw
    by (simp add: reportsChanges_def sampleController_def)
  have rev: "getAllReplicaSetsAndSyncRevision (sampleController None ?a False sw False)
      ?r [?x, ?n] True [] = ((?n, [?x], None), [])" for sw
    by (simp add: sampleController_def)
  have svc: "getPreviewAndActiveServices (sampleController None ?a False sw False) ?r []
      = ((None, ?a, None), [])" for sw
    by (simp add: sampleController_def)
  have up: "reconcileNewReplicaSet ?d (sampleController None ?a False sw False)
      ([?x] @ [?n]) ?n ?r [] = ((False, None), [])" for sw
    by (simp add: reconcileNewReplicaSet_def defs)
  have passed: "passedPreviewBlock ?d (sampleController None ?a False sw False) ?r ?n None ?a [] []"
    for sw
    by (simp add: passedPreviewBlock_def)
  have active: "reconcileActiveService (sampleController None ?a False True False)
      ?r ?n None ?a [] = ((True, None), [(''active'', 0)])"
    by (simp add: sampleController_def)
  have inactive: "reconcileActiveService (sampleController None ?a False False False)
      ?r ?n None ?a [] = ((False, None), [])"
    by (simp add: sampleController_def)
  have old: "reconcileOldReplicaSets ?d (sampleController None ?a False False False)
      ([?x] @ [?n]) (FilterActiveReplicaSets ?d [?x]) ?n ?r [] = ((True, None), [(''x'', 0)])"
    by (simp add: reconcileOldReplicaSets_def cleanupUnhealthyReplicas_def
        scaleDownOldReplicaSetsForBlueGreen_def GetReplicaCountForReplicaSets_def
        GetAvailableReplicaCountForReplicaSets_def sortByCreationTimestamp_def defs)
  from rolloutBlueGreen_single_mutating_step [OF contract [of True],
      where r = ?r and rsList = "[?x, ?n]" and w = "[]" and newRS = ?n and oldRSs = "[?x]"
        and ?w1.0 = "[]" and previewSvc = None and activeSvc = ?a and ?w2.0 = "[]"
        and ?w3.0 = "[]" and ?w4.0 = "[]" and ?w5.0 = "[(''active'', 0)]" and d = ?d]
    rev svc up passed active
  have "rolloutBlueGreen ?d (sampleController None ?a False True False) ?r [?x, ?n] []
      = syncAndReturn (sampleController None ?a False True False) ([?x] @ [?n]) ?n None ?a ?r
          [(''active'', 0)]"
    by simp
  moreover
  from rolloutBlueGreen_single_mutating_step [OF contract [of False],
      where r = ?r and rsList = "[?x, ?n]" and w = "[]" and newRS = ?n and oldRSs = "[?x]"
        and ?w1.0 = "[]" and previewSvc = None and activeSvc = ?a and ?w2.0 = "[]"
        and ?w3.0 = "[]" and ?w4.0 = "[]" and ?w5.0 = "[]" and e = None
        and ?w6.0 = "[(''x'', 0)]" and d = ?d]
    rev svc up passed inactive old
  have "rolloutBlueGreen ?d (sampleController None ?a False False False) ?r [?x, ?n] []
      = syncAndReturn (sampleController None ?a False False False) ([?x] @ [?n]) ?n None ?a ?r
          [(''x'', 0)]"
    by simp
  ultimately show ?thesis
    using contract [of True] active old
    by (simp add: syncAndReturn_def sampleController_def)
qed

text \<open>
  Claim C7 (gate precedence), as amended. Take a pass whose revision sync and selector
  lookup succeed, with a preview selector configured (a non-empty name and a non-nil
  selector), an active selector whose selector map contains the revision-identifier key,
  and \<^verbatim>\<open>status.verifyingPreview\<close> true. Run with logging collaborators, the pass never
  calls the active cutover nor the cleanup, its scale calls are those of the New Group
  Scaler (none comes from eviction or scale-down), it does not panic, and its last call
  is the status sync unless the pass returns an error.
\<close>

theorem rolloutBlueGreen_gate_precedence:
  assumes rev: "getAllReplicaSetsAndSyncRevision c r rsList True w = ((newRS, oldRSs, None), w1)"
    and svc: "getPreviewAndActiveServices c r w1 = ((Some previewSvc, Some activeSvc, None), w2)"
    and name: "roPreviewService r \<noteq> []"
    and key: "DefaultRolloutUniqueLabelKey d \<in> dom (svcSelector activeSvc)"
    and verifying: "roVerifyingPreview r = Some True"
  shows "CallActiveCutover \<notin> set (snd (snd (rolloutBlueGreen d (traced c) r rsList (w, []))))
     \<and> CallCleanup \<notin> set (snd (snd (rolloutBlueGreen d (traced c) r rsList (w, []))))
     \<and> scaleCalls (snd (snd (rolloutBlueGreen d (traced c) r rsList (w, []))))
         = scaleCalls (snd (snd
             (reconcileNewReplicaSet d (traced c) (oldRSs @ [newRS]) newRS r (w2, []))))
     \<and> (\<exists>e. fst (rolloutBlueGreen d (traced c) r rsList (w, [])) = Inr e)
     \<and> (last (snd (snd (rolloutBlueGreen d (traced c) r rsList (w, [])))) = CallSyncStatus
         \<or> (\<exists>e. fst (rolloutBlueGreen d (traced c) r rsList (w, [])) = Inr (Some e)))"
proof -
  let ?allRSs = "oldRSs @ [newRS]"
  let ?run = "rolloutBlueGreen d (traced c) r rsList (w, [])"
  let ?P = "\<lambda>run cs. CallActiveCutover \<notin> set (snd (snd run))
     \<and> CallCleanup \<notin> set (snd (snd run))
     \<and> scaleCalls (snd (snd run)) = scaleCalls cs
     \<and> (\<exists>e. fst run = Inr e)
     \<and> (last (snd (snd run)) = CallSyncStatus \<or> (\<exists>e. fst run = Inr (Some e)))"
  from reconcileNewReplicaSet_traced [of newRS d c ?allRSs r w2]
  obtain cs where cs: "cs = [] \<or> (\<exists>n. cs = [CallScale newRS n])"
    and up: "\<And>log. reconcileNewReplicaSet d (traced c) ?allRSs newRS r (w2, log)
           = (fst (reconcileNewReplicaSet d c ?allRSs newRS r w2),
              (snd (reconcileNewReplicaSet d c ?allRSs newRS r w2), log @ cs))"
    by blast
  obtain scaledUp e3 w3 where
    up0: "reconcileNewReplicaSet d c ?allRSs newRS r w2 = ((scaledUp, e3), w3)"
    by (metis prod.exhaust)
  obtain switchPreview e4 w4 where
    pre0: "reconcilePreviewService c r newRS (Some previewSvc) (Some activeSvc) w3
             = ((switchPreview, e4), w4)"
    by (metis prod.exhaust)
  from name key verifying have gate: "reconcileVerifyingPreview d (Some activeSvc) r = Inr True"
    by (auto simp add: reconcileVerifyingPreview_def)
  have nocut: "CallActiveCutover \<notin> set cs" "CallCleanup \<notin> set cs" using cs by auto
  note defs = rolloutBlueGreen_def traced_getAllReplicaSetsAndSyncRevision
    traced_getPreviewAndActiveServices traced_reconcilePreviewService Let_def
  note start = rev svc up0 up [of "[CallSyncRevision, CallGetServices]"]
  have run: "?P ?run cs"
  proof (cases e3)
    case (Some e)
    with start have "?run = (Inr (Some e), (w3, [CallSyncRevision, CallGetServices] @ cs))"
      by (simp add: defs)
    with nocut show ?thesis by (simp add: scaleCalls_append)
  next
    case None
    show ?thesis
    proof (cases scaledUp)
      case True
      with None start have "?run =
          (fst (syncAndReturn c ?allRSs newRS (Some previewSvc) (Some activeSvc) r w3),
           (snd (syncAndReturn c ?allRSs newRS (Some previewSvc) (Some activeSvc) r w3),
            ([CallSyncRevision, CallGetServices] @ cs) @ [CallSyncStatus]))"
        by (simp add: defs syncAndReturn_traced)
      with nocut
        syncAndReturn_no_panic [of c ?allRSs newRS "Some previewSvc" "Some activeSvc" r w3]
      show ?thesis by (auto simp add: scaleCalls_append)
    next
      case False
      show ?thesis
      proof (cases e4)
        case (Some e)
        with None False start pre0 have "?run =
            (Inr (Some e), (w4, ([CallSyncRevision, CallGetServices] @ cs) @ [CallPreviewCutover]))"
          by (simp add: defs)
        with nocut show ?thesis by (simp add: scaleCalls_append)
      next
        case e4: None
        with None False start pre0 gate have "?run =
          (fst (syncAndReturn c ?allRSs newRS (Some previewSvc) (Some activeSvc) r w4),
           (snd (syncAndReturn c ?allRSs newRS (Some previewSvc) (Some activeSvc) r w4),
            ([CallSyncRevision, CallGetServices] @ cs @ [CallPreviewCutover]) @ [CallSyncStatus]))"
          by (cases switchPreview) (simp_all add: defs syncAndReturn_traced)
        with nocut
          syncAndReturn_no_panic [of c ?allRSs newRS "Some previewSvc" "Some activeSvc" r w4]
        show ?thesis by (auto simp add: scaleCalls_append)
      qed
    qed
  qed
  from up [of "[]"] have "snd (snd (reconcileNewReplicaSet d (traced c) ?allRSs newRS r (w2, []))) = cs"
    by simp
  with run show ?thesis by simp
qed

text \<open>
  A pass held at the gate: the new group is at the desired count, the preview selector
  is in place, the active selector carries the revision key, and verification is
  pending. The calls are the two lookups, the preview cutover and the status sync; the
  old group x, which ScaleOldDown would scale to zero, is left alone.
\<close>

theorem rolloutBlueGreen_gate_precedence_witness:
  "roPreviewService (sampleRollout 4 ''preview'' (Some True)) \<noteq> []
   \<and> DefaultRolloutUniqueLabelKey (sampleDeps False)
       \<in> dom (svcSelector (sampleService ''active'' [''rollouts-pod-template-hash'' \<mapsto> ''abc'']))
   \<and> roVerifyingPreview (sampleRollout 4 ''preview'' (Some True)) = Some True
   \<and> rolloutBlueGreen (sampleDeps False)
        (traced (sampleController (Some (sampleService ''preview'' Map.empty))
           (Some (sampleService ''active'' [''rollouts-pod-template-hash'' \<mapsto> ''abc'']))
           False True False))
        (sampleRollout 4 ''preview'' (Some True))
        [sampleRS ''x'' 1 4 4, sampleRS ''new'' 2 4 4] ([], [])
      = (Inr None, ([(''status'', 0)],
           [CallSyncRevision, CallGetServices, CallPreviewCutover, CallSyncStatus]))"
proof -
  let ?p = "sampleService ''preview'' Map.empty"
  let ?a = "sampleService ''active'' [''rollouts-pod-template-hash'' \<mapsto> ''abc'']"
  let ?c = "sampleController (Some ?p) (Some ?a) False True False"
  let ?r = "sampleRollout 4 ''preview'' (Some True)"
  let ?x = "sampleRS ''x'' 1 4 4"
  let ?n = "sampleRS ''new'' 2 4 4"
  have rev: "getAllReplicaSetsAndSyncRevision ?c ?r [?x, ?n] True [] = ((?n, [?x], None), [])"
    by (simp add: sampleController_def)
  have svc: "getPreviewAndActiveServices ?c ?r [] = ((Some ?p, Some ?a, None), [])"
    by (simp add: sampleController_def)
  have name: "roPreviewService ?r \<noteq> []"
    by (simp add: sampleRollout_def)
  have key: "DefaultRolloutUniqueLabelKey (sampleDeps False) \<in> dom (svcSelector ?a)"
    by (simp add: sampleDeps_def sampleService_def)
  have verifying: "roVerifyingPreview ?r = Some True"
    by (simp add: sampleRollout_def)
  have run: "rolloutBlueGreen (sampleDeps False) (traced ?c) ?r [?x, ?n] ([], [])
      = (Inr None, ([(''status'', 0)],
           [CallSyncRevision, CallGetServices, CallPreviewCutover, CallSyncStatus]))"
    by (simp add: rolloutBlueGreen_def reconcileNewReplicaSet_def reconcileVerifyingPreview_def
        syncAndReturn_def traced_def sampleController_def sampleDeps_def sampleRollout_def
        sampleRS_def sampleService_def)
  from rolloutBlueGreen_gate_precedence [OF rev svc name key verifying] run name key verifying
  show ?thesis by simp
qed

text \<open>
  The claim as stated has every such pass sync the status. With the gate conditions in
  place, a new group at 0 of 4 desired replicas and a scale collaborator that fails, the
  pass returns the scale error after the New Group Scaler's call: no status sync.
\<close>

theorem rolloutBlueGreen_gate_precedence_counterexample:
  "roPreviewService (sampleRollout 4 ''preview'' (Some True)) \<noteq> []
   \<and> getPreviewAndActiveServices
        (sampleController (Some (sampleService ''preview'' Map.empty))
           (Some (sampleService ''active'' [''rollouts-pod-template-hash'' \<mapsto> ''abc'']))
           False True True)
        (sampleRollout 4 ''preview'' (Some True)) []
      = ((Some (sampleService ''preview'' Map.empty),
          Some (sampleService ''active'' [''rollouts-pod-template-hash'' \<mapsto> ''abc'']), None), [])
   \<and> DefaultRolloutUniqueLabelKey (sampleDeps False)
       \<in> dom (svcSelector (sampleService ''active'' [''rollouts-pod-template-hash'' \<mapsto> ''abc'']))
   \<and> roVerifyingPreview (sampleRollout 4 ''preview'' (Some True)) = Some True
   \<and> rolloutBlueGreen (sampleDeps False)
        (traced (sampleController (Some (sampleService ''preview'' Map.empty))
           (Some (sampleService ''active'' [''rollouts-pod-template-hash'' \<mapsto> ''abc'']))
           False True True))
        (sampleRollout 4 ''preview'' (Some True))
        [sampleRS ''x'' 1 4 4, sampleRS ''new'' 2 0 0] ([], [])
      = (Inr (Some (CollaboratorError ''update failed'')),
         ([], [CallSyncRevision, CallGetServices, CallScale (sampleRS ''new'' 2 0 0) 4]))
   \<and> CallSyncStatus \<notin> set (snd (snd (rolloutBlueGreen (sampleDeps False)
        (traced (sampleController (Some (sampleService ''preview'' Map.empty))
           (Some (sampleService ''active'' [''rollouts-pod-template-hash'' \<mapsto> ''abc'']))
           False True True))
        (sampleRollout 4 ''preview'' (Some True))
        [sampleRS ''x'' 1 4 4, sampleRS ''new'' 2 0 0] ([], []))))"
  by (simp add: rolloutBlueGreen_def reconcileNewReplicaSet_def traced_def
      sampleController_def sampleDeps_def sampleRollout_def sampleRS_def sampleService_def
      word_sless_alt)

text \<open>
  Claim C2 (error propagation) fails on the code for the Safe Scale-Down Step. Old group
  x and the new group are both at the desired 4 replicas, so there is surplus, and the
  scale collaborator fails. \<^verbatim>\<open>scaleDownOldReplicaSetsForBlueGreen\<close> returns that error,
  \<^verbatim>\<open>reconcileOldReplicaSets\<close> replaces it by \<^verbatim>\<open>false, nil\<close> (lines 140-142), and
  \<^verbatim>\<open>rolloutBlueGreen\<close> goes on to the status sync and returns nil.
\<close>

theorem rolloutBlueGreen_swallows_scale_down_error:
  "scaleDownOldReplicaSetsForBlueGreen (sampleDeps False)
       (sampleController None (Some (sampleService ''active'' Map.empty)) False False True)
       [sampleRS ''x'' 1 4 4, sampleRS ''new'' 2 4 4] [sampleRS ''x'' 1 4 4]
       (sampleRollout 4 [] None) []
     = ((0, Some (CollaboratorError ''update failed'')), [])
   \<and> reconcileOldReplicaSets (sampleDeps False)
       (sampleController None (Some (sampleService ''active'' Map.empty)) False False True)
       [sampleRS ''x'' 1 4 4, sampleRS ''new'' 2 4 4] [sampleRS ''x'' 1 4 4]
       (sampleRS ''new'' 2 4 4) (sampleRollout 4 [] None) []
     = ((False, None), [])
   \<and> rolloutBlueGreen (sampleDeps False)
       (traced (sampleController None (Some (sampleService ''active'' Map.empty))
          False False True))
       (sampleRollout 4 [] None) [sampleRS ''x'' 1 4 4, sampleRS ''new'' 2 4 4] ([], [])
     = (Inr None, ([(''status'', 0)],
          [CallSyncRevision, CallGetServices, CallActiveCutover,
           CallScale (sampleRS ''x'' 1 4 4) 0, CallSyncStatus]))"
  by (simp add: rolloutBlueGreen_def rolloutBlueGreenTail_def reconcileNewReplicaSet_def
      reconcileOldReplicaSets_def cleanupUnhealthyReplicas_def
      scaleDownOldReplicaSetsForBlueGreen_def GetReplicaCountForReplicaSets_def
      GetAvailableReplicaCountForReplicaSets_def sortByCreationTimestamp_def
      syncAndReturn_def traced_def sampleController_def sampleDeps_def sampleRollout_def
      sampleRS_def word_sless_alt word_sle_eq)

end
